theory Spec2Isabelle
  imports Main "HOL-Library.Word"
begin

section \<open>The runtime of the causal profiler (lib/runtime/profiler.cpp)\<close>

text \<open>
  The embedding follows \<^verbatim>\<open>profiler.cpp\<close> function by function. Every \<^verbatim>\<open>size_t\<close> is a
  64-bit word, so \<open>+\<close>, \<open>-\<close> and \<open>*\<close> wrap as in the C++ and \<open>-1\<close> is the all-ones word.
  A \<^verbatim>\<open>line*\<close> (or \<^verbatim>\<open>shared_ptr<line>\<close>) is an optional line identity, \<open>None\<close> being the
  null pointer.
\<close>

type_synonym size_t = "64 word"
type_synonym line = nat

subsection \<open>What the headers supply\<close>

text \<open>
  \<^verbatim>\<open>profiler.h\<close>, \<^verbatim>\<open>perf.h\<close>, \<^verbatim>\<open>support.h\<close>, \<^verbatim>\<open>util.h\<close> and \<^verbatim>\<open>output.h\<close> are not among the
  sources. The compile-time constants, the address map, the random distribution and the
  sleep primitive they declare are parameters of the model: the \<open>k\<close>-th draw of
  \<^verbatim>\<open>_delay_dist(_generator)\<close> is \<open>delay_dist k\<close>, and the \<open>k\<close>-th call \<^verbatim>\<open>wait(t)\<close> returns
  \<open>wait_actual k t\<close>, the time that really elapsed.
\<close>

record env =
  SamplePeriod :: size_t
  SampleWakeupCount :: size_t
  MinRoundSamples :: size_t
  SpeedupDivisions :: size_t
  find_line_ip :: "64 word \<Rightarrow> line option"
  find_line_name :: "string \<Rightarrow> line option"
  delay_dist :: "nat \<Rightarrow> size_t"
  wait_actual :: "nat \<Rightarrow> size_t \<Rightarrow> size_t"

text \<open>A \<^verbatim>\<open>perf_event::record\<close>: a sample with its instruction pointer and callchain, or
  some other record of the ring buffer.\<close>

datatype perf_record = Sample (get_ip: "64 word") (get_callchain: "64 word list") | Metadata

fun is_sample :: "perf_record \<Rightarrow> bool" where
  "is_sample (Sample i c) = True"
| "is_sample Metadata = False"

subsection \<open>Thread state and profiler state\<close>

text \<open>
  The fields of \<^verbatim>\<open>thread_state\<close> that \<^verbatim>\<open>profiler.cpp\<close> touches. The sampler is reduced to
  whether it exists and whether it is counting, the timer to its interval.
  \<open>latch_held\<close> is the thread's \<^verbatim>\<open>siglock\<close>: it is set while the thread itself is inside a
  section that holds the state.
\<close>

record thread_state =
  sampler_open :: bool
  sampler_running :: bool
  process_timer :: "size_t option"
  delay_count :: size_t
  excess_delay :: size_t
  global_delay_snapshot :: size_t
  local_delay_snapshot :: size_t
  latch_held :: bool

text \<open>The calls made on the output object, and the one line \<^verbatim>\<open>shutdown\<close> writes to standard
  error. The \<^verbatim>\<open>%f\<close> argument \<^verbatim>\<open>static_cast<float>(_fixed_delay_size) / SamplePeriod\<close> is kept
  as its two operands.\<close>

datatype out_event =
    Ev_startup size_t
  | Ev_add_counter string line
  | Ev_start_round line
  | Ev_end_round size_t size_t
  | Ev_shutdown

datatype stderr_line = End_to_end size_t size_t size_t

text \<open>The pointer \<^verbatim>\<open>_out\<close>: null, or an output object with the calls it has received, or
  that object after \<^verbatim>\<open>delete\<close>.\<close>

datatype output_ptr = Null | Output "out_event list" | Deleted "out_event list"

text \<open>
  The members of \<^verbatim>\<open>profiler\<close>. \<open>line_samples\<close> lists the lines on
  which \<^verbatim>\<open>add_sample\<close> was called, \<open>generator\<close> counts the random draws, \<open>sleeps\<close> lists
  the calls of \<^verbatim>\<open>wait\<close> as (requested, elapsed), \<open>stderr\<close> the lines \<^verbatim>\<open>fprintf\<close> writes
  to standard error, \<open>warnings\<close> the messages of \<^verbatim>\<open>PREFER\<close> and \<^verbatim>\<open>WARNING\<close>.
\<close>

record profiler =
  selected_line :: "line option"
  fixed_line :: "line option"
  fixed_delay_size :: size_t
  round_samples :: size_t
  round_start_delays :: size_t
  delay_size :: size_t
  global_delays :: size_t
  start_time :: size_t
  shutdown_run :: bool
  out :: output_ptr
  line_samples :: "line list"
  generator :: nat
  sleeps :: "(size_t \<times> size_t) list"
  stderr :: "stderr_line list"
  warnings :: "string list"

text \<open>What ends the process: a failed \<^verbatim>\<open>REQUIRE\<close>, or a call through \<^verbatim>\<open>_out\<close> when it is
  null or points to a deleted object.\<close>

datatype error = Require_failed | Null_output | Output_deleted

subsection \<open>add_delays\<close>

definition add_delays :: "env \<Rightarrow> profiler \<times> thread_state \<Rightarrow> profiler \<times> thread_state" where
  "add_delays E = (\<lambda>(P, state).
     let global_delay_count = global_delays P;
         delay_size' = delay_size P
     in if delay_count state > global_delay_count then
          (P\<lparr>global_delays := global_delays P + (delay_count state - global_delay_count)\<rparr>, state)
        else if delay_count state < global_delay_count then
          (let time_to_wait = (global_delay_count - delay_count state) * delay_size'
           in if excess_delay state > time_to_wait then
                (P, state\<lparr>excess_delay := excess_delay state - time_to_wait,
                          delay_count := global_delay_count\<rparr>)
              else
                (let time_to_wait' = time_to_wait - excess_delay state;
                     elapsed = wait_actual E (length (sleeps P)) time_to_wait'
                 in (P\<lparr>sleeps := sleeps P @ [(time_to_wait', elapsed)]\<rparr>,
                     state\<lparr>excess_delay := elapsed - time_to_wait',
                           delay_count := global_delay_count\<rparr>)))
        else (P, state))"

text \<open>
  \<open>add_delays\<close> reads \<^verbatim>\<open>_global_delays\<close> and \<^verbatim>\<open>_delay_size\<close> at lines 366 and 367 and
  writes \<^verbatim>\<open>_global_delays\<close> at line 372, and another thread may run in between.
  \<open>add_delays_from\<close> is lines 370 to 390 with the two values read before: the \<^verbatim>\<open>+=\<close> of
  line 372 adds to \<^verbatim>\<open>_global_delays\<close> as it is then.
\<close>

definition add_delays_from ::
    "env \<Rightarrow> size_t \<Rightarrow> size_t \<Rightarrow> profiler \<times> thread_state \<Rightarrow> profiler \<times> thread_state" where
  "add_delays_from E global_delay_count delay_size' = (\<lambda>(P, state).
     if delay_count state > global_delay_count then
       (P\<lparr>global_delays := global_delays P + (delay_count state - global_delay_count)\<rparr>, state)
     else if delay_count state < global_delay_count then
       (let time_to_wait = (global_delay_count - delay_count state) * delay_size'
        in if excess_delay state > time_to_wait then
             (P, state\<lparr>excess_delay := excess_delay state - time_to_wait,
                       delay_count := global_delay_count\<rparr>)
           else
             (let time_to_wait' = time_to_wait - excess_delay state;
                  elapsed = wait_actual E (length (sleeps P)) time_to_wait'
              in (P\<lparr>sleeps := sleeps P @ [(time_to_wait', elapsed)]\<rparr>,
                  state\<lparr>excess_delay := elapsed - time_to_wait',
                        delay_count := global_delay_count\<rparr>)))
     else (P, state))"

text \<open>The DelayEngine as the specification words it (section 4.4, steps 1 to 4).\<close>

definition delay_engine_spec :: "env \<Rightarrow> profiler \<times> thread_state \<Rightarrow> profiler \<times> thread_state" where
  "delay_engine_spec E = (\<lambda>(P, state).
     let g = global_delays P; d = delay_size P; w = (g - delay_count state) * d
     in if delay_count state > g then
          (P\<lparr>global_delays := global_delays P + (delay_count state - g)\<rparr>, state)
        else if delay_count state < g then
          (if excess_delay state > w then
             (P, state\<lparr>excess_delay := excess_delay state - w, delay_count := g\<rparr>)
           else
             (P\<lparr>sleeps := sleeps P @
                  [(w - excess_delay state,
                    wait_actual E (length (sleeps P)) (w - excess_delay state))]\<rparr>,
              state\<lparr>excess_delay :=
                      wait_actual E (length (sleeps P)) (w - excess_delay state)
                        - (w - excess_delay state),
                    delay_count := g\<rparr>))
        else (P, state))"

subsection \<open>Acquiring the thread state\<close>

text \<open>
  Modelled from the spec: \<^verbatim>\<open>thread_state::get\<close> and \<^verbatim>\<open>siglock\<close> (\<^verbatim>\<open>thread_state.h\<close>,
  \<^verbatim>\<open>siglock.h\<close>) are not among the sources. Section 5 of the specification: the state is
  guarded by a latch; in signal context \<open>get\<close> returns no state when the thread already
  holds the latch. The reference it returns holds the latch until the end of its scope.
\<close>

datatype siglock_context = thread_context | signal_context

definition thread_state_get :: "siglock_context \<Rightarrow> thread_state \<Rightarrow> thread_state option" where
  "thread_state_get c state =
     (if latch_held state then None else Some (state\<lparr>latch_held := True\<rparr>))"

definition release :: "thread_state \<Rightarrow> thread_state" where
  "release state = state\<lparr>latch_held := False\<rparr>"

subsection \<open>find_containing_line\<close>

fun walk_callchain :: "env \<Rightarrow> 64 word list \<Rightarrow> line option" where
  "walk_callchain E [] = None"
| "walk_callchain E (pc # pcs) =
     (case find_line_ip E pc of Some l \<Rightarrow> Some l | None \<Rightarrow> walk_callchain E pcs)"

fun find_containing_line :: "env \<Rightarrow> perf_record \<Rightarrow> line option" where
  "find_containing_line E Metadata = None"
| "find_containing_line E (Sample ip callchain) =
     (case find_line_ip E ip of Some l \<Rightarrow> Some l | None \<Rightarrow> walk_callchain E callchain)"

subsection \<open>process_samples\<close>

definition add_sample :: "line \<Rightarrow> profiler \<Rightarrow> profiler" where
  "add_sample l P = P\<lparr>line_samples := l # line_samples P\<rparr>"

text \<open>A call on \<^verbatim>\<open>_out\<close>; the pointer must still point to the output object.\<close>

definition emit :: "out_event \<Rightarrow> profiler \<Rightarrow> error + profiler" where
  "emit e P = (case out P of
                 Output es \<Rightarrow> Inr (P\<lparr>out := Output (es @ [e])\<rparr>)
               | Null \<Rightarrow> Inl Null_output
               | Deleted es \<Rightarrow> Inl Output_deleted)"

text \<open>\<^verbatim>\<open>delete _out\<close>.\<close>

definition delete_out :: "profiler \<Rightarrow> profiler" where
  "delete_out P = (case out P of Output es \<Rightarrow> P\<lparr>out := Deleted es\<rparr> | _ \<Rightarrow> P)"

definition compare_exchange_strong ::
    "line option \<Rightarrow> line option \<Rightarrow> profiler \<Rightarrow> bool \<times> profiler" where
  "compare_exchange_strong expected desired P =
     (if selected_line P = expected then (True, P\<lparr>selected_line := desired\<rparr>) else (False, P))"

text \<open>Lines 307 to 322: what the thread that won the exchange does.\<close>

definition start_round :: "env \<Rightarrow> line \<Rightarrow> profiler \<Rightarrow> error + profiler" where
  "start_round E l P =
     (let P1 = P\<lparr>round_samples := 0\<rparr>;
          P2 = P1\<lparr>round_start_delays := global_delays P1\<rparr>;
          P3 = (if fixed_delay_size P2 \<noteq> - 1 then P2\<lparr>delay_size := fixed_delay_size P2\<rparr>
                else P2\<lparr>delay_size :=
                          delay_dist E (generator P2) * SamplePeriod E div SpeedupDivisions E,
                        generator := Suc (generator P2)\<rparr>)
      in emit (Ev_start_round l) P3)"

text \<open>
  Lines 295 to 332, entered with the line \<open>l\<close> of the sample and the loaded
  \<open>current_line\<close>. The result is \<open>None\<close> when the function returns at line 330, and
  otherwise the values of \<open>l\<close> and \<open>current_line\<close> after the block.
\<close>

definition select_line ::
    "env \<Rightarrow> line option \<Rightarrow> line option \<Rightarrow> profiler
       \<Rightarrow> error + (line option \<times> line option \<times> profiler) option" where
  "select_line E l current_line P =
     (if current_line = None then
        (let l' = (if fixed_line P \<noteq> None then fixed_line P else l)
         in case l' of
              Some x \<Rightarrow>
                (case compare_exchange_strong None l' P of
                   (True, P1) \<Rightarrow>
                     (case start_round E x P1 of
                        Inl e \<Rightarrow> Inl e
                      | Inr P2 \<Rightarrow> Inr (Some (l', l', P2)))
                 | (False, P1) \<Rightarrow> Inr (Some (l', selected_line P1, P1)))
            | None \<Rightarrow> Inr None)
      else Inr (Some (l, current_line, P)))"

text \<open>Lines 335 to 354.\<close>

definition count_sample ::
    "env \<Rightarrow> line option \<Rightarrow> line option \<Rightarrow> profiler \<times> thread_state
       \<Rightarrow> error + profiler \<times> thread_state" where
  "count_sample E l current_line = (\<lambda>(P, state).
     if current_line \<noteq> None then
       (let state1 = (if l = current_line then state\<lparr>delay_count := delay_count state + 1\<rparr>
                      else state);
            P1 = P\<lparr>round_samples := round_samples P + 1\<rparr>
        in if round_samples P1 = MinRoundSamples E then
             (case emit (Ev_end_round (global_delays P1 - round_start_delays P1) (delay_size P1)) P1 of
                Inl e \<Rightarrow> Inl e
              | Inr P2 \<Rightarrow> Inr (P2\<lparr>selected_line := None\<rparr>, state1))
           else Inr (P1, state1))
     else Inr (P, state))"

datatype flow = Next | Return

text \<open>The body of the loop for one record.\<close>

definition process_record ::
    "env \<Rightarrow> perf_record \<Rightarrow> profiler \<times> thread_state
       \<Rightarrow> error + flow \<times> profiler \<times> thread_state" where
  "process_record E r = (\<lambda>(P, state).
     if is_sample r then
       (let l = find_containing_line E r;
            P1 = (case l of Some x \<Rightarrow> add_sample x P | None \<Rightarrow> P);
            current_line = selected_line P1
        in case select_line E l current_line P1 of
             Inl e \<Rightarrow> Inl e
           | Inr None \<Rightarrow> Inr (Return, P1, state)
           | Inr (Some (l', current_line', P2)) \<Rightarrow>
               (case count_sample E l' current_line' (P2, state) of
                  Inl e \<Rightarrow> Inl e
                | Inr PS \<Rightarrow> Inr (Next, PS)))
     else Inr (Next, P, state))"

text \<open>The loop over the records the sampler yields.\<close>

fun process_loop ::
    "env \<Rightarrow> perf_record list \<Rightarrow> profiler \<times> thread_state
       \<Rightarrow> error + flow \<times> profiler \<times> thread_state" where
  "process_loop E [] PS = Inr (Next, PS)"
| "process_loop E (r # rs) PS =
     (case process_record E r PS of
        Inl e \<Rightarrow> Inl e
      | Inr (Return, PS1) \<Rightarrow> Inr (Return, PS1)
      | Inr (Next, PS1) \<Rightarrow> process_loop E rs PS1)"

definition sampler_stop :: "thread_state \<Rightarrow> thread_state" where
  "sampler_stop state = state\<lparr>sampler_running := False\<rparr>"

definition sampler_start :: "thread_state \<Rightarrow> thread_state" where
  "sampler_start state = state\<lparr>sampler_running := True\<rparr>"

definition sampler_close :: "thread_state \<Rightarrow> thread_state" where
  "sampler_close state = state\<lparr>sampler_open := False\<rparr>"

text \<open>\<open>records\<close> is what the iteration over \<^verbatim>\<open>state->sampler\<close> yields in this call.\<close>

definition process_samples ::
    "env \<Rightarrow> perf_record list \<Rightarrow> profiler \<times> thread_state \<Rightarrow> error + profiler \<times> thread_state" where
  "process_samples E records = (\<lambda>(P, state).
     case process_loop E records (P, sampler_stop state) of
       Inl e \<Rightarrow> Inl e
     | Inr (Return, PS) \<Rightarrow> Inr PS
     | Inr (Next, PS) \<Rightarrow>
         (case add_delays E PS of (P1, state1) \<Rightarrow> Inr (P1, sampler_start state1)))"

subsection \<open>The signal handler\<close>

definition samples_ready ::
    "env \<Rightarrow> perf_record list \<Rightarrow> profiler \<times> thread_state \<Rightarrow> error + profiler \<times> thread_state" where
  "samples_ready E records = (\<lambda>(P, state0).
     case thread_state_get signal_context state0 of
       Some state \<Rightarrow>
         (case process_samples E records (P, state) of
            Inl e \<Rightarrow> Inl e
          | Inr (P1, state1) \<Rightarrow> Inr (P1, release state1))
     | None \<Rightarrow> Inr (P, state0))"

subsection \<open>Sampling on and off, and the delay interface\<close>

definition begin_sampling :: "env \<Rightarrow> thread_state \<Rightarrow> error + thread_state" where
  "begin_sampling E state0 =
     (case thread_state_get thread_context state0 of
        None \<Rightarrow> Inl Require_failed
      | Some state \<Rightarrow>
          (let state1 = state\<lparr>sampler_open := True, sampler_running := False\<rparr>;
               state2 = state1\<lparr>process_timer := Some (SamplePeriod E * SampleWakeupCount E)\<rparr>
           in Inr (release (sampler_start state2))))"

definition end_sampling ::
    "env \<Rightarrow> perf_record list \<Rightarrow> profiler \<times> thread_state \<Rightarrow> error + profiler \<times> thread_state" where
  "end_sampling E records = (\<lambda>(P, state0).
     case thread_state_get thread_context state0 of
       None \<Rightarrow> Inl Require_failed
     | Some state \<Rightarrow>
         (case process_samples E records (P, state) of
            Inl e \<Rightarrow> Inl e
          | Inr PS \<Rightarrow>
              (case add_delays E PS of
                 (P1, state1) \<Rightarrow> Inr (P1, release (sampler_close (sampler_stop state1))))))"

definition snapshot_delays :: "profiler \<Rightarrow> thread_state \<Rightarrow> error + thread_state" where
  "snapshot_delays P state0 =
     (case thread_state_get thread_context state0 of
        None \<Rightarrow> Inl Require_failed
      | Some state \<Rightarrow>
          (let state1 = state\<lparr>global_delay_snapshot := global_delays P\<rparr>;
               state2 = state1\<lparr>local_delay_snapshot := delay_count state1\<rparr>
           in Inr (release state2)))"

definition skip_delays :: "profiler \<Rightarrow> thread_state \<Rightarrow> error + thread_state" where
  "skip_delays P state0 =
     (case thread_state_get thread_context state0 of
        None \<Rightarrow> Inl Require_failed
      | Some state \<Rightarrow>
          (let missed_delays = global_delays P - global_delay_snapshot state
           in Inr (release (state\<lparr>delay_count := local_delay_snapshot state + missed_delays\<rparr>))))"

definition catch_up ::
    "env \<Rightarrow> profiler \<times> thread_state \<Rightarrow> error + profiler \<times> thread_state" where
  "catch_up E = (\<lambda>(P, state0).
     case thread_state_get thread_context state0 of
       None \<Rightarrow> Inl Require_failed
     | Some state \<Rightarrow>
         (case add_delays E (P, state) of (P1, state1) \<Rightarrow> Inr (P1, release state1)))"

subsection \<open>shutdown\<close>

definition test_and_set :: "profiler \<Rightarrow> bool \<times> profiler" where
  "test_and_set P = (shutdown_run P, P\<lparr>shutdown_run := True\<rparr>)"

text \<open>Lines 121 to 128; \<open>now\<close> is what \<^verbatim>\<open>get_time()\<close> returns at line 122.\<close>

definition report_end_to_end :: "env \<Rightarrow> size_t \<Rightarrow> profiler \<Rightarrow> profiler" where
  "report_end_to_end E now P =
     (if fixed_line P \<noteq> None \<and> fixed_delay_size P \<noteq> - 1 then
        (let runtime = now - start_time P;
             delay_count' = global_delays P;
             effective_time = runtime - delay_count' * fixed_delay_size P
         in P\<lparr>stderr := stderr P @
                 [End_to_end (fixed_delay_size P) (SamplePeriod E) effective_time]\<rparr>)
      else P)"

definition shutdown ::
    "env \<Rightarrow> size_t \<Rightarrow> perf_record list \<Rightarrow> profiler \<times> thread_state
       \<Rightarrow> error + profiler \<times> thread_state" where
  "shutdown E now records = (\<lambda>(P0, state).
     case test_and_set P0 of
       (False, P) \<Rightarrow>
         (case end_sampling E records (P, state) of
            Inl e \<Rightarrow> Inl e
          | Inr (P1, state1) \<Rightarrow>
              (case emit Ev_shutdown P1 of
                 Inl e \<Rightarrow> Inl e
               | Inr P2 \<Rightarrow> Inr (report_end_to_end E now (delete_out P2), state1)))
     | (True, P) \<Rightarrow> Inr (P, state))"

subsection \<open>Thread creation and exit\<close>

text \<open>A thread function and its argument are addresses.\<close>

record thread_start_arg =
  arg_fn :: "64 word"
  arg_arg :: "64 word"
  parent_delay_count :: size_t
  parent_excess_delay :: size_t

text \<open>
  \<^verbatim>\<open>handle_pthread_create\<close> up to the call of \<^verbatim>\<open>real::pthread_create\<close>: the wrapped argument
  handed to the new thread, and the state of the calling thread.
\<close>

definition handle_pthread_create ::
    "64 word \<Rightarrow> 64 word \<Rightarrow> thread_state \<Rightarrow> error + thread_start_arg \<times> thread_state" where
  "handle_pthread_create fn arg state0 =
     (case thread_state_get thread_context state0 of
        None \<Rightarrow> Inl Require_failed
      | Some state \<Rightarrow>
          Inr (\<lparr>arg_fn = fn, arg_arg = arg,
                parent_delay_count = delay_count state,
                parent_excess_delay = excess_delay state\<rparr>, release state))"

text \<open>
  \<^verbatim>\<open>start_thread\<close> on the new thread, whose state is \<open>state0\<close>, up to line 164: the function
  and argument that are called there, and the state of the thread at that call.
\<close>

definition start_thread ::
    "env \<Rightarrow> thread_start_arg \<Rightarrow> thread_state \<Rightarrow> error + 64 word \<times> 64 word \<times> thread_state" where
  "start_thread E arg state0 =
     (case thread_state_get thread_context state0 of
        None \<Rightarrow> Inl Require_failed
      | Some state \<Rightarrow>
          (let state1 = state\<lparr>delay_count := parent_delay_count arg\<rparr>;
               state2 = state1\<lparr>excess_delay := parent_excess_delay arg\<rparr>;
               real_fn = arg_fn arg;
               real_arg = arg_arg arg
           in case begin_sampling E (release state2) of
                Inl e \<Rightarrow> Inl e
              | Inr state3 \<Rightarrow> Inr (real_fn, real_arg, state3)))"

definition handle_pthread_exit ::
    "env \<Rightarrow> perf_record list \<Rightarrow> profiler \<times> thread_state \<Rightarrow> error + profiler \<times> thread_state" where
  "handle_pthread_exit E records PS = end_sampling E records PS"

subsection \<open>startup\<close>

definition warn :: "string \<Rightarrow> profiler \<Rightarrow> profiler" where
  "warn m P = P\<lparr>warnings := warnings P @ [m]\<rparr>"

fun register_lines :: "env \<Rightarrow> string list \<Rightarrow> profiler \<Rightarrow> error + profiler" where
  "register_lines E [] P = Inr P"
| "register_lines E (line_name # names) P =
     (case find_line_name E line_name of
        Some l \<Rightarrow>
          (case emit (Ev_add_counter line_name l) P of
             Inl e \<Rightarrow> Inl e
           | Inr P1 \<Rightarrow> register_lines E names P1)
      | None \<Rightarrow> register_lines E names (warn line_name P))"

text \<open>
  The signal dispositions and the building of the address map are outside the state of the
  model: the handler is \<open>samples_ready\<close>, and the map that \<^verbatim>\<open>_map.build(scope)\<close> leaves
  behind is \<open>find_line_ip\<close> and \<open>find_line_name\<close>. \<open>now\<close> is \<^verbatim>\<open>get_time()\<close> at line 99.
\<close>

definition startup ::
    "env \<Rightarrow> string list \<Rightarrow> string \<Rightarrow> int \<Rightarrow> size_t \<Rightarrow> profiler \<times> thread_state
       \<Rightarrow> error + profiler \<times> thread_state" where
  "startup E source_progress_names fixed_line_name fixed_speedup now = (\<lambda>(P, state).
     let P1 = (if fixed_line_name \<noteq> [] then
                 (let P' = P\<lparr>fixed_line := find_line_name E fixed_line_name\<rparr>
                  in if fixed_line P' = None then warn fixed_line_name P' else P')
               else P);
         P2 = (if fixed_speedup \<ge> 0 \<and> fixed_speedup \<le> 100 then
                 P1\<lparr>fixed_delay_size := SamplePeriod E * word_of_int fixed_speedup div 100\<rparr>
               else P1);
         P3 = P2\<lparr>out := Output []\<rparr>
     in case register_lines E source_progress_names P3 of
          Inl e \<Rightarrow> Inl e
        | Inr P4 \<Rightarrow>
            (case emit (Ev_startup (SamplePeriod E)) (P4\<lparr>start_time := now\<rparr>) of
               Inl e \<Rightarrow> Inl e
             | Inr P5 \<Rightarrow>
                 (case begin_sampling E state of
                    Inl e \<Rightarrow> Inl e
                  | Inr state1 \<Rightarrow> Inr (P5, state1))))"

subsection \<open>A session\<close>

text \<open>
  The process: the profiler and the state of every thread. A session is a sequence of
  calls into the profiler, each made by some thread and run to its end. An error ends
  the session (\<^verbatim>\<open>REQUIRE\<close> aborts the process).
\<close>

type_synonym tid = nat

record system =
  prof :: profiler
  threads :: "tid \<Rightarrow> thread_state"

datatype call =
    Startup "string list" string int size_t
  | Shutdown size_t "perf_record list"
  | Pthread_create tid "64 word" "64 word"
  | Pthread_exit "perf_record list"
  | Snapshot_delays
  | Skip_delays
  | Catch_up
  | Begin_sampling
  | End_sampling "perf_record list"
  | Samples_ready "perf_record list"

definition on_both ::
    "(profiler \<times> thread_state \<Rightarrow> error + profiler \<times> thread_state) \<Rightarrow> tid \<Rightarrow> system
       \<Rightarrow> error + system" where
  "on_both f t S =
     (case f (prof S, threads S t) of
        Inl e \<Rightarrow> Inl e
      | Inr (P, state) \<Rightarrow> Inr (S\<lparr>prof := P, threads := (threads S)(t := state)\<rparr>))"

definition on_thread ::
    "(thread_state \<Rightarrow> error + thread_state) \<Rightarrow> tid \<Rightarrow> system \<Rightarrow> error + system" where
  "on_thread f t S =
     (case f (threads S t) of
        Inl e \<Rightarrow> Inl e
      | Inr state \<Rightarrow> Inr (S\<lparr>threads := (threads S)(t := state)\<rparr>))"

text \<open>\<^verbatim>\<open>Pthread_create child\<close>: the new thread is \<open>child\<close>, and it runs \<open>start_thread\<close> up to
  the call of its function.\<close>

fun run_call :: "env \<Rightarrow> tid \<Rightarrow> call \<Rightarrow> system \<Rightarrow> error + system" where
  "run_call E t (Startup names fixed_line_name fixed_speedup now) S =
     on_both (startup E names fixed_line_name fixed_speedup now) t S"
| "run_call E t (Shutdown now records) S = on_both (shutdown E now records) t S"
| "run_call E t (Pthread_create child fn arg) S =
     (case handle_pthread_create fn arg (threads S t) of
        Inl e \<Rightarrow> Inl e
      | Inr (new_arg, state) \<Rightarrow>
          (let S1 = S\<lparr>threads := (threads S)(t := state)\<rparr>
           in on_thread (\<lambda>c. case start_thread E new_arg c of
                                Inl e \<Rightarrow> Inl e
                              | Inr (real_fn, real_arg, c1) \<Rightarrow> Inr c1) child S1))"
| "run_call E t (Pthread_exit records) S = on_both (handle_pthread_exit E records) t S"
| "run_call E t Snapshot_delays S = on_thread (snapshot_delays (prof S)) t S"
| "run_call E t Skip_delays S = on_thread (skip_delays (prof S)) t S"
| "run_call E t Catch_up S = on_both (catch_up E) t S"
| "run_call E t Begin_sampling S = on_thread (begin_sampling E) t S"
| "run_call E t (End_sampling records) S = on_both (end_sampling E records) t S"
| "run_call E t (Samples_ready records) S = on_both (samples_ready E records) t S"

fun session :: "env \<Rightarrow> (tid \<times> call) list \<Rightarrow> system \<Rightarrow> error + system" where
  "session E [] S = Inr S"
| "session E ((t, c) # cs) S =
     (case run_call E t c S of
        Inl e \<Rightarrow> Inl e
      | Inr S1 \<Rightarrow> session E cs S1)"

subsection \<open>A concrete configuration\<close>

text \<open>
  Modelled from the spec: the initial values of the members are set in \<^verbatim>\<open>profiler.h\<close>, which
  is not among the sources. In \<open>initial_profiler\<close>, the profiler before \<open>startup\<close>, every
  counter is 0, no line is selected, no fixed line is set and \<open>fixed_delay_size\<close> is the
  sentinel \<open>-1\<close> (sections 3 and 4.6 of the specification, scenario 3 of section 8);
  \<open>initial_thread\<close> is a thread state before \<open>begin_sampling\<close>. \<open>fresh_profiler\<close> and
  \<open>fresh_thread\<close> are what \<open>startup\<close> makes of them without progress lines, fixed line or
  fixed speedup.

  \<open>example_env\<close> has constants of the size the profiler uses, with a round of two samples;
  one line, number 7, at address 1 and named \<^verbatim>\<open>a.c:7\<close>; every sleep overshoots by 5.
\<close>

definition example_env :: env where
  "example_env =
     \<lparr>SamplePeriod = 1000000, SampleWakeupCount = 10, MinRoundSamples = 2,
      SpeedupDivisions = 20,
      find_line_ip = (\<lambda>a. if a = 1 then Some 7 else None),
      find_line_name = (\<lambda>n. if n = ''a.c:7'' then Some 7 else None),
      delay_dist = (\<lambda>k. 10),
      wait_actual = (\<lambda>k t. t + 5)\<rparr>"

definition initial_profiler :: profiler where
  "initial_profiler =
     \<lparr>selected_line = None, fixed_line = None, fixed_delay_size = - 1, round_samples = 0,
      round_start_delays = 0, delay_size = 0, global_delays = 0, start_time = 0,
      shutdown_run = False, out = Null, line_samples = [], generator = 0, sleeps = [],
      stderr = [], warnings = []\<rparr>"

definition initial_thread :: thread_state where
  "initial_thread =
     \<lparr>sampler_open = False, sampler_running = False, process_timer = None, delay_count = 0,
      excess_delay = 0, global_delay_snapshot = 0, local_delay_snapshot = 0,
      latch_held = False\<rparr>"

definition fresh_profiler :: profiler where
  "fresh_profiler = initial_profiler\<lparr>out := Output [Ev_startup 1000000]\<rparr>"

definition fresh_thread :: thread_state where
  "fresh_thread =
     initial_thread\<lparr>sampler_open := True, sampler_running := True,
                    process_timer := Some 10000000\<rparr>"

definition example_system :: system where
  "example_system = \<lparr>prof = fresh_profiler, threads = (\<lambda>t. fresh_thread)\<rparr>"

subsection \<open>Several threads inside process_samples\<close>

text \<open>
  The signal handler runs on every thread, so several threads can be inside
  \<open>process_samples\<close> at once, and they meet at the atomic members of the profiler. Here
  the body of the loop is cut at three places: after the exchange of line 305 has
  succeeded, before line 335, and between the call of \<^verbatim>\<open>end_round\<close> at line 347 and the
  store at line 350; and \<open>add_delays\<close> (line 358) is cut between its reads and line 370.
  A thread runs from one cut to the next without interruption; at a cut any other thread
  may run. Every run of this model is therefore a run of the program in which the threads
  are not interrupted anywhere else.

  \<open>Loop_head\<close>: at line 282, about to take the next record or to leave the loop.
  \<open>Won_exchange l\<close>: the exchange at line 305 installed \<open>l\<close>; line 307 is next.
  \<open>Have_line l current_line\<close>: line 335 is next, with these values of the two locals.
  \<open>Final_sample\<close>: \<^verbatim>\<open>end_round\<close> has been called at line 347; line 350 is next.
  \<open>Loaded_delays g d\<close>: in \<open>add_delays\<close>, lines 366 and 367 have read \<open>g\<close> and \<open>d\<close>; line
  370 is next.
  \<open>Left\<close>: the thread has left \<open>process_samples\<close>.
\<close>

datatype pc =
    Loop_head
  | Won_exchange line
  | Have_line "line option" "line option"
  | Final_sample
  | Loaded_delays size_t size_t
  | Left

record worker =
  wstate :: thread_state
  wpc :: pc
  wrecords :: "perf_record list"

text \<open>A thread enters \<open>process_samples\<close> (line 280) with the records its sampler holds.\<close>

definition enter :: "perf_record list \<Rightarrow> thread_state \<Rightarrow> worker" where
  "enter records state = \<lparr>wstate = sampler_stop state, wpc = Loop_head, wrecords = records\<rparr>"

definition worker_step :: "env \<Rightarrow> profiler \<times> worker \<Rightarrow> error + profiler \<times> worker" where
  "worker_step E = (\<lambda>(P, w).
     case wpc w of
       Loop_head \<Rightarrow>
         (case wrecords w of
            [] \<Rightarrow> Inr (P, w\<lparr>wpc := Loaded_delays (global_delays P) (delay_size P)\<rparr>)
          | r # rs \<Rightarrow>
              if is_sample r then
                (let l = find_containing_line E r;
                     P1 = (case l of Some x \<Rightarrow> add_sample x P | None \<Rightarrow> P);
                     current_line = selected_line P1
                 in if current_line = None then
                      (let l' = (if fixed_line P1 \<noteq> None then fixed_line P1 else l)
                       in case l' of
                            Some x \<Rightarrow>
                              (case compare_exchange_strong None l' P1 of
                                 (True, P2) \<Rightarrow>
                                   Inr (P2, w\<lparr>wpc := Won_exchange x, wrecords := rs\<rparr>)
                               | (False, P2) \<Rightarrow>
                                   Inr (P2, w\<lparr>wpc := Have_line l' (selected_line P2),
                                              wrecords := rs\<rparr>))
                          | None \<Rightarrow> Inr (P1, w\<lparr>wpc := Left, wrecords := rs\<rparr>))
                    else Inr (P1, w\<lparr>wpc := Have_line l current_line, wrecords := rs\<rparr>))
              else Inr (P, w\<lparr>wrecords := rs\<rparr>))
     | Won_exchange x \<Rightarrow>
         (case start_round E x P of
            Inl e \<Rightarrow> Inl e
          | Inr P1 \<Rightarrow> Inr (P1, w\<lparr>wpc := Have_line (Some x) (Some x)\<rparr>))
     | Have_line l current_line \<Rightarrow>
         if current_line \<noteq> None then
           (let state = wstate w;
                state1 = (if l = current_line then state\<lparr>delay_count := delay_count state + 1\<rparr>
                          else state);
                P1 = P\<lparr>round_samples := round_samples P + 1\<rparr>
            in if round_samples P1 = MinRoundSamples E then
                 (case emit (Ev_end_round (global_delays P1 - round_start_delays P1)
                               (delay_size P1)) P1 of
                    Inl e \<Rightarrow> Inl e
                  | Inr P2 \<Rightarrow> Inr (P2, w\<lparr>wstate := state1, wpc := Final_sample\<rparr>))
               else Inr (P1, w\<lparr>wstate := state1, wpc := Loop_head\<rparr>))
         else Inr (P, w\<lparr>wpc := Loop_head\<rparr>)
     | Final_sample \<Rightarrow> Inr (P\<lparr>selected_line := None\<rparr>, w\<lparr>wpc := Loop_head\<rparr>)
     | Loaded_delays g d \<Rightarrow>
         (case add_delays_from E g d (P, wstate w) of
            (P1, state1) \<Rightarrow> Inr (P1, w\<lparr>wstate := sampler_start state1, wpc := Left\<rparr>))
     | Left \<Rightarrow> Inr (P, w))"

text \<open>A schedule names, step by step, the thread that runs to its next cut.\<close>

fun interleave ::
    "env \<Rightarrow> tid list \<Rightarrow> profiler \<times> (tid \<Rightarrow> worker) \<Rightarrow> error + profiler \<times> (tid \<Rightarrow> worker)" where
  "interleave E [] C = Inr C"
| "interleave E (t # ts) C =
     (case worker_step E (fst C, snd C t) of
        Inl e \<Rightarrow> Inl e
      | Inr (P1, w1) \<Rightarrow> interleave E ts (P1, (snd C)(t := w1)))"

text \<open>A thread that takes \<open>n\<close> steps in a row.\<close>

fun solo :: "env \<Rightarrow> nat \<Rightarrow> profiler \<times> worker \<Rightarrow> error + profiler \<times> worker" where
  "solo E 0 C = Inr C"
| "solo E (Suc n) C =
     (case worker_step E C of
        Inl e \<Rightarrow> Inl e
      | Inr C1 \<Rightarrow> solo E n C1)"

definition pc_after :: "flow \<Rightarrow> pc" where
  "pc_after f = (case f of Next \<Rightarrow> Loop_head | Return \<Rightarrow> Left)"

text \<open>The configuration of the race: a second line, number 8, at address 2; thread 0
  holds two samples on line 7, thread 1 four samples on line 8; the profiler is fresh.\<close>

definition race_env :: env where
  "race_env = example_env\<lparr>find_line_ip :=
     (\<lambda>a. if a = 1 then Some 7 else if a = 2 then Some 8 else None)\<rparr>"

definition race_workers :: "tid \<Rightarrow> worker" where
  "race_workers =
     (\<lambda>t. enter [] fresh_thread)
       (0 := enter [Sample 1 [], Sample 1 []] fresh_thread,
        1 := enter [Sample 2 [], Sample 2 [], Sample 2 [], Sample 2 []] fresh_thread)"

definition race_schedule :: "tid list" where
  "race_schedule = [0, 1, 1, 1, 1, 1, 1, 1, 1, 1, 1, 0, 0, 0, 0]"

text \<open>The same race for rounds of \<open>m\<close> samples.\<close>

definition race_env_n :: "nat \<Rightarrow> env" where
  "race_env_n m = race_env\<lparr>MinRoundSamples := of_nat m\<rparr>"

definition race_workers_n :: "nat \<Rightarrow> tid \<Rightarrow> worker" where
  "race_workers_n m =
     (\<lambda>t. enter [] fresh_thread)
       (0 := enter (replicate m (Sample 1 [])) fresh_thread,
        1 := enter (replicate (2 * m) (Sample 2 [])) fresh_thread)"

definition race_schedule_n :: "nat \<Rightarrow> tid list" where
  "race_schedule_n m = 0 # replicate (4 * m + 2) 1 @ replicate (2 * m) 0"

text \<open>The value of \<open>selected_line\<close> before the first step of a schedule and after each of
  its steps.\<close>

fun selected_history ::
    "env \<Rightarrow> tid list \<Rightarrow> profiler \<times> (tid \<Rightarrow> worker) \<Rightarrow> line option list" where
  "selected_history E [] C = [selected_line (fst C)]"
| "selected_history E (t # ts) C =
     selected_line (fst C) #
       (case worker_step E (fst C, snd C t) of
          Inl e \<Rightarrow> []
        | Inr (P1, w1) \<Rightarrow> selected_history E ts (P1, (snd C)(t := w1)))"

subsection \<open>A session of threads that run at the same time\<close>

text \<open>
  In \<open>session\<close> a call is over before the next begins. Here the calls of different
  threads overlap. A thread is outside the profiler, or inside \<open>process_samples\<close> at one
  of the cuts above, or inside the \<open>add_delays\<close> of \<open>catch_up\<close> (line 220) or of
  \<open>end_sampling\<close> (line 251) between its reads and line 370, or in \<open>shutdown\<close> between
  the return of \<open>end_sampling\<close> and line 117.

  \<open>From_signal\<close> and \<open>From_end_sampling\<close> say who called \<open>process_samples\<close>, and the
  \<open>tail\<close> what the thread does next: \<open>Done\<close>, it is outside the profiler again;
  \<open>Shutdown_tail now\<close>, it is in \<open>shutdown\<close> and goes on to line 117, where \<open>now\<close> is the
  time that line 122 will read. \<open>end_sampling\<close> has the second tail when \<open>shutdown\<close>
  called it, the signal handler when it interrupted \<open>shutdown\<close> before line 117.

  A thread holds its latch as long as the \<^verbatim>\<open>ref\<close> that \<^verbatim>\<open>thread_state::get\<close> returned
  lives: to the end of \<open>catch_up\<close>, of \<open>end_sampling\<close> or of \<open>samples_ready\<close>. A signal
  that arrives earlier finds the latch held, and its handler does nothing.
\<close>

datatype tail = Done | Shutdown_tail size_t

datatype caller = From_signal tail | From_end_sampling tail

datatype cont = In_catch_up | In_end_sampling tail

datatype activity =
    Outside
  | In_process_samples pc "perf_record list" caller
  | Loaded size_t size_t cont
  | After_end_sampling size_t

record agent =
  astate :: thread_state
  activity :: activity

text \<open>
  A thread begins a call: up to the first cut. \<open>startup\<close>, \<open>handle_pthread_create\<close> with
  the beginning of the new thread, \<open>snapshot_delays\<close>, \<open>skip_delays\<close> and
  \<open>begin_sampling\<close> have no cut and are done in this one step.
\<close>

definition whole_call ::
    "env \<Rightarrow> tid \<Rightarrow> call \<Rightarrow> profiler \<times> (tid \<Rightarrow> agent) \<Rightarrow> error + profiler \<times> (tid \<Rightarrow> agent)" where
  "whole_call E t c = (\<lambda>(P, ags).
     case run_call E t c \<lparr>prof = P, threads = (\<lambda>u. astate (ags u))\<rparr> of
       Inl e \<Rightarrow> Inl e
     | Inr S \<Rightarrow> Inr (prof S, (\<lambda>u. (ags u)\<lparr>astate := threads S u\<rparr>)))"

definition begin_end_sampling ::
    "tid \<Rightarrow> perf_record list \<Rightarrow> tail \<Rightarrow> profiler \<times> (tid \<Rightarrow> agent)
       \<Rightarrow> error + profiler \<times> (tid \<Rightarrow> agent)" where
  "begin_end_sampling t records after = (\<lambda>(P, ags).
     case thread_state_get thread_context (astate (ags t)) of
       None \<Rightarrow> Inl Require_failed
     | Some state \<Rightarrow>
         Inr (P, ags(t := \<lparr>astate = sampler_stop state,
                           activity = In_process_samples Loop_head records
                                        (From_end_sampling after)\<rparr>)))"

definition begin_samples_ready ::
    "tid \<Rightarrow> perf_record list \<Rightarrow> tail \<Rightarrow> profiler \<times> (tid \<Rightarrow> agent)
       \<Rightarrow> error + profiler \<times> (tid \<Rightarrow> agent)" where
  "begin_samples_ready t records after = (\<lambda>(P, ags).
     case thread_state_get signal_context (astate (ags t)) of
       None \<Rightarrow> Inr (P, ags)
     | Some state \<Rightarrow>
         Inr (P, ags(t := \<lparr>astate = sampler_stop state,
                           activity = In_process_samples Loop_head records
                                        (From_signal after)\<rparr>)))"

fun begin_call ::
    "env \<Rightarrow> tid \<Rightarrow> call \<Rightarrow> profiler \<times> (tid \<Rightarrow> agent) \<Rightarrow> error + profiler \<times> (tid \<Rightarrow> agent)" where
  "begin_call E t (Samples_ready records) C = begin_samples_ready t records Done C"
| "begin_call E t (End_sampling records) C = begin_end_sampling t records Done C"
| "begin_call E t (Pthread_exit records) C = begin_end_sampling t records Done C"
| "begin_call E t (Shutdown now records) C =
     (case test_and_set (fst C) of
        (False, P) \<Rightarrow> begin_end_sampling t records (Shutdown_tail now) (P, snd C)
      | (True, P) \<Rightarrow> Inr (P, snd C))"
| "begin_call E t Catch_up C =
     (case thread_state_get thread_context (astate (snd C t)) of
        None \<Rightarrow> Inl Require_failed
      | Some state \<Rightarrow>
          Inr (fst C, (snd C)(t := \<lparr>astate = state,
                                   activity = Loaded (global_delays (fst C)) (delay_size (fst C))
                                                In_catch_up\<rparr>)))"
| "begin_call E t (Startup names fixed_line_name fixed_speedup now) C =
     whole_call E t (Startup names fixed_line_name fixed_speedup now) C"
| "begin_call E t (Pthread_create child fn arg) C = whole_call E t (Pthread_create child fn arg) C"
| "begin_call E t Snapshot_delays C = whole_call E t Snapshot_delays C"
| "begin_call E t Skip_delays C = whole_call E t Skip_delays C"
| "begin_call E t Begin_sampling C = whole_call E t Begin_sampling C"

text \<open>A thread inside a call runs to its next cut, or to the end of the call.\<close>

definition resume :: "tail \<Rightarrow> activity" where
  "resume after = (case after of Done \<Rightarrow> Outside | Shutdown_tail now \<Rightarrow> After_end_sampling now)"

definition fine_step ::
    "env \<Rightarrow> tid \<Rightarrow> profiler \<times> (tid \<Rightarrow> agent) \<Rightarrow> error + profiler \<times> (tid \<Rightarrow> agent)" where
  "fine_step E t = (\<lambda>(P, ags).
     let state = astate (ags t)
     in case activity (ags t) of
          Outside \<Rightarrow> Inr (P, ags)
        | In_process_samples p records who \<Rightarrow>
            if p = Left then
              (case who of
                 From_signal after \<Rightarrow>
                   Inr (P, ags(t := \<lparr>astate = release state, activity = resume after\<rparr>))
               | From_end_sampling after \<Rightarrow>
                   Inr (P, ags(t := \<lparr>astate = state,
                                     activity = Loaded (global_delays P) (delay_size P)
                                                  (In_end_sampling after)\<rparr>)))
            else
              (case worker_step E (P, \<lparr>wstate = state, wpc = p, wrecords = records\<rparr>) of
                 Inl e \<Rightarrow> Inl e
               | Inr (P1, w1) \<Rightarrow>
                   Inr (P1, ags(t := \<lparr>astate = wstate w1,
                                      activity = In_process_samples (wpc w1) (wrecords w1)
                                                   who\<rparr>)))
        | Loaded g d k \<Rightarrow>
            (case add_delays_from E g d (P, state) of
               (P1, state1) \<Rightarrow>
                 (case k of
                    In_catch_up \<Rightarrow>
                      Inr (P1, ags(t := \<lparr>astate = release state1, activity = Outside\<rparr>))
                  | In_end_sampling after \<Rightarrow>
                      Inr (P1, ags(t := \<lparr>astate = release (sampler_close (sampler_stop state1)),
                                         activity = resume after\<rparr>))))
        | After_end_sampling now \<Rightarrow>
            (case emit Ev_shutdown P of
               Inl e \<Rightarrow> Inl e
             | Inr P2 \<Rightarrow>
                 Inr (report_end_to_end E now (delete_out P2),
                      ags(t := \<lparr>astate = state, activity = Outside\<rparr>))))"

text \<open>
  What happens in a session: a thread that is outside the profiler begins a call, or a
  thread takes a step. A thread that is inside a call begins no other call, but the signal
  handler can interrupt it: in \<open>shutdown\<close> before line 117 the handler runs
  \<open>process_samples\<close> and the thread goes on from there; anywhere else the latch is held
  and the handler does nothing.
\<close>

datatype event = Begin call | Step

fun fine_event ::
    "env \<Rightarrow> tid \<times> event \<Rightarrow> profiler \<times> (tid \<Rightarrow> agent) \<Rightarrow> error + profiler \<times> (tid \<Rightarrow> agent)" where
  "fine_event E (t, Begin c) C =
     (case activity (snd C t) of
        Outside \<Rightarrow> begin_call E t c C
      | After_end_sampling now \<Rightarrow>
          (case c of
             Samples_ready records \<Rightarrow> begin_samples_ready t records (Shutdown_tail now) C
           | _ \<Rightarrow> Inr C)
      | _ \<Rightarrow> Inr C)"
| "fine_event E (t, Step) C = fine_step E t C"

fun fine_session ::
    "env \<Rightarrow> (tid \<times> event) list \<Rightarrow> profiler \<times> (tid \<Rightarrow> agent)
       \<Rightarrow> error + profiler \<times> (tid \<Rightarrow> agent)" where
  "fine_session E [] C = Inr C"
| "fine_session E (e # es) C =
     (case fine_event E e C of
        Inl x \<Rightarrow> Inl x
      | Inr C1 \<Rightarrow> fine_session E es C1)"

text \<open>
  What the next step of a thread adds to \<^verbatim>\<open>_global_delays\<close> at line 372: the thread has
  read \<open>g\<close> at line 366 and its \<open>delay_count\<close> is larger.
\<close>

definition owed :: "thread_state \<Rightarrow> size_t \<Rightarrow> size_t" where
  "owed state g = (if delay_count state > g then delay_count state - g else 0)"

fun pending_add :: "agent \<Rightarrow> size_t" where
  "pending_add a =
     (case activity a of
        Loaded g d k \<Rightarrow> owed (astate a) g
      | In_process_samples (Loaded_delays g d) records who \<Rightarrow> owed (astate a) g
      | _ \<Rightarrow> 0)"

text \<open>No addition of the session passes \<open>2 ^ 64\<close>.\<close>

fun adds_fit ::
    "env \<Rightarrow> (tid \<times> event) list \<Rightarrow> profiler \<times> (tid \<Rightarrow> agent) \<Rightarrow> bool" where
  "adds_fit E [] C = True"
| "adds_fit E ((t, ev) # es) C =
     ((case ev of
         Step \<Rightarrow> unat (global_delays (fst C)) + unat (pending_add (snd C t)) < 2 ^ 64
       | Begin c \<Rightarrow> True)
      \<and> (case fine_event E (t, ev) C of
           Inl x \<Rightarrow> True
         | Inr C1 \<Rightarrow> adds_fit E es C1))"

text \<open>All threads outside the profiler.\<close>

definition outside :: "(tid \<Rightarrow> thread_state) \<Rightarrow> tid \<Rightarrow> agent" where
  "outside states = (\<lambda>t. \<lparr>astate = states t, activity = Outside\<rparr>)"

text \<open>The value of \<open>global_delays\<close> before a session and after each of its events.\<close>

fun global_delays_history ::
    "env \<Rightarrow> (tid \<times> event) list \<Rightarrow> profiler \<times> (tid \<Rightarrow> agent) \<Rightarrow> size_t list" where
  "global_delays_history E [] C = [global_delays (fst C)]"
| "global_delays_history E (e # es) C =
     global_delays (fst C) #
       (case fine_event E e C of
          Inl x \<Rightarrow> []
        | Inr C1 \<Rightarrow> global_delays_history E es C1)"

text \<open>
  Two threads outside the profiler whose delay counts are \<open>a\<close> and \<open>b\<close>, and a session in
  which both call \<open>catch_up\<close>: both read \<^verbatim>\<open>_global_delays\<close> at line 366 before either
  comes to line 372.
\<close>

definition two_ahead :: "size_t \<Rightarrow> size_t \<Rightarrow> tid \<Rightarrow> agent" where
  "two_ahead a b =
     outside ((\<lambda>t. fresh_thread)
       (0 := fresh_thread\<lparr>delay_count := a\<rparr>, 1 := fresh_thread\<lparr>delay_count := b\<rparr>))"

definition catch_up_race :: "(tid \<times> event) list" where
  "catch_up_race = [(0, Begin Catch_up), (1, Begin Catch_up), (0, Step), (1, Step)]"

subsection \<open>What sample processing leaves alone\<close>

definition keeps_session :: "profiler \<Rightarrow> profiler \<Rightarrow> bool" where
  "keeps_session P P' \<longleftrightarrow>
     fixed_line P' = fixed_line P \<and> fixed_delay_size P' = fixed_delay_size P \<and>
     start_time P' = start_time P \<and> shutdown_run P' = shutdown_run P \<and>
     stderr P' = stderr P \<and> global_delays P \<le> global_delays P'"

section \<open>Properties\<close>

subsection \<open>Frame lemmas\<close>

lemma emit_Inr:
  "emit e P = Inr P' \<longleftrightarrow> (\<exists>es. out P = Output es \<and> P' = P\<lparr>out := Output (es @ [e])\<rparr>)"
  by (auto simp: emit_def split: output_ptr.splits)

lemma keeps_session_refl [simp]: "keeps_session P P"
  by (simp add: keeps_session_def)

lemma keeps_session_trans: "keeps_session P P1 \<Longrightarrow> keeps_session P1 P2 \<Longrightarrow> keeps_session P P2"
  by (auto simp: keeps_session_def)

lemma add_delays_split:
  "add_delays E (P, state) = add_delays_from E (global_delays P) (delay_size P) (P, state)"
  by (simp add: add_delays_def add_delays_from_def Let_def)

lemma add_delays_keeps:
  "add_delays E (P, state) = (P', state') \<Longrightarrow> keeps_session P P'"
  by (auto simp: add_delays_def keeps_session_def Let_def split: if_splits)

lemma add_delays_sampler:
  "add_delays E (P, state) = (P', state') \<Longrightarrow>
     sampler_running state' = sampler_running state \<and> sampler_open state' = sampler_open state
     \<and> latch_held state' = latch_held state"
  by (auto simp: add_delays_def Let_def split: if_splits)

lemma start_round_keeps: "start_round E l P = Inr P' \<Longrightarrow> keeps_session P P'"
  by (auto simp: start_round_def keeps_session_def Let_def emit_Inr split: if_splits)

lemma select_line_keeps:
  "select_line E l c P = Inr (Some (l', c', P')) \<Longrightarrow> keeps_session P P'"
  by (auto simp: select_line_def compare_exchange_strong_def Let_def keeps_session_def
      split: if_splits option.splits sum.splits dest!: start_round_keeps)

lemma count_sample_keeps:
  "count_sample E l c (P, state) = Inr (P', state') \<Longrightarrow> keeps_session P P'"
  by (auto simp: count_sample_def Let_def keeps_session_def emit_Inr split: if_splits sum.splits)

lemma count_sample_sampler:
  "count_sample E l c (P, state) = Inr (P', state') \<Longrightarrow>
     sampler_running state' = sampler_running state \<and> sampler_open state' = sampler_open state
     \<and> latch_held state' = latch_held state"
  by (auto simp: count_sample_def Let_def split: if_splits sum.splits)

lemma process_record_keeps:
  "process_record E r (P, state) = Inr (f, P', state') \<Longrightarrow> keeps_session P P'"
  apply (auto simp: process_record_def Let_def add_sample_def
      split: if_splits sum.splits option.splits prod.splits
      dest!: select_line_keeps count_sample_keeps)
  apply (auto simp: keeps_session_def)
  done

lemma process_record_sampler:
  "process_record E r (P, state) = Inr (f, P', state') \<Longrightarrow>
     sampler_running state' = sampler_running state \<and> sampler_open state' = sampler_open state
     \<and> latch_held state' = latch_held state"
  by (auto simp: process_record_def Let_def
      split: if_splits sum.splits option.splits prod.splits
      dest!: count_sample_sampler)


lemma process_loop_keeps:
  "process_loop E rs (P, state) = Inr (f, P', state') \<Longrightarrow>
     keeps_session P P' \<and> sampler_running state' = sampler_running state
     \<and> sampler_open state' = sampler_open state \<and> latch_held state' = latch_held state"
proof (induction rs arbitrary: P state)
  case Nil
  then show ?case by simp
next
  case (Cons r rs)
  from Cons.prems obtain g P1 s1 where
    step: "process_record E r (P, state) = Inr (g, P1, s1)"
    by (auto split: sum.splits)
  note k = process_record_keeps [OF step] process_record_sampler [OF step]
  show ?case
  proof (cases g)
    case Return
    with Cons.prems step k show ?thesis by simp
  next
    case Next
    with Cons.prems step have "process_loop E rs (P1, s1) = Inr (f, P', state')" by simp
    from Cons.IH [OF this] k show ?thesis
      by (auto intro: keeps_session_trans)
  qed
qed

lemma process_loop_append:
  "process_loop E pre PS = Inr (Next, PS1) \<Longrightarrow>
     process_loop E (pre @ rs) PS = process_loop E rs PS1"
proof (induction pre arbitrary: PS)
  case Nil
  then show ?case by simp
next
  case (Cons r pre)
  then show ?case
    by (auto split: sum.splits flow.splits)
qed

lemma process_samples_keeps:
  assumes "process_samples E rs (P, state) = Inr (P', state')"
  shows "keeps_session P P' \<and> sampler_open state' = sampler_open state
     \<and> latch_held state' = latch_held state"
proof -
  from assms obtain g P1 s1 where
    loop: "process_loop E rs (P, sampler_stop state) = Inr (g, P1, s1)"
    by (auto simp: process_samples_def split: sum.splits)
  from process_loop_keeps [OF loop] have k:
    "keeps_session P P1" "sampler_open s1 = sampler_open state"
    "latch_held s1 = latch_held state"
    by (simp_all add: sampler_stop_def)
  show ?thesis
  proof (cases g)
    case Return
    with assms loop k show ?thesis by (simp add: process_samples_def)
  next
    case Next
    obtain P2 s2 where ad: "add_delays E (P1, s1) = (P2, s2)"
      by (cases "add_delays E (P1, s1)")
    with assms loop Next have "P' = P2" "state' = sampler_start s2"
      by (simp_all add: process_samples_def)
    with add_delays_keeps [OF ad] add_delays_sampler [OF ad] k show ?thesis
      by (auto simp: sampler_start_def intro: keeps_session_trans)
  qed
qed

lemma end_sampling_keeps:
  "end_sampling E rs (P, state) = Inr (P', state') \<Longrightarrow> keeps_session P P'"
  apply (clarsimp simp: end_sampling_def thread_state_get_def
      split: option.splits sum.splits prod.splits if_splits)
  apply (drule process_samples_keeps)
  apply (drule add_delays_keeps)
  apply (auto intro: keeps_session_trans)
  done

lemma samples_ready_keeps:
  "samples_ready E rs (P, state) = Inr (P', state') \<Longrightarrow> keeps_session P P'"
  apply (clarsimp simp: samples_ready_def thread_state_get_def
      split: option.splits sum.splits prod.splits if_splits)
  apply (drule process_samples_keeps)
  apply simp
  done

lemma catch_up_keeps:
  "catch_up E (P, state) = Inr (P', state') \<Longrightarrow> keeps_session P P'"
  by (auto simp: catch_up_def thread_state_get_def
      split: option.splits sum.splits prod.splits if_splits dest: add_delays_keeps)

subsection \<open>The claims\<close>

text \<open>
  C2. For every thread state and every global state with \<open>global_delays = g\<close> and
  \<open>delay_size = d\<close>, \<open>add_delays\<close> is the DelayEngine of the specification: when
  \<open>delay_count > g\<close> it adds \<open>delay_count - g\<close> to \<open>global_delays\<close>; when \<open>delay_count < g\<close>
  it takes \<open>w = (g - delay_count) * d\<close> and either consumes \<open>w\<close> from an \<open>excess_delay\<close>
  larger than \<open>w\<close>, or sleeps \<open>w - excess_delay\<close> and keeps the oversleep as the new
  \<open>excess_delay\<close>, setting \<open>delay_count = g\<close> both times; otherwise nothing changes.
\<close>

theorem add_delays_is_delay_engine:
  "add_delays E (P, state) = delay_engine_spec E (P, state)"
  by (simp add: add_delays_def delay_engine_spec_def Let_def)

text \<open>
  C9. When the handler of the sample signal does not get the thread state (in signal
  context, because the thread holds the latch already), it does nothing: no sample is
  processed, no counter of the profiler or of the thread changes, nothing is reported,
  and it returns.
\<close>

theorem samples_ready_latch_held:
  "thread_state_get signal_context state = None \<Longrightarrow>
     samples_ready E records (P, state) = Inr (P, state)"
  by (simp add: samples_ready_def)

theorem samples_ready_latch_held_witness:
  "thread_state_get signal_context (fresh_thread\<lparr>latch_held := True\<rparr>) = None \<and>
   samples_ready example_env [Sample 1 []] (fresh_profiler, fresh_thread\<lparr>latch_held := True\<rparr>)
     = Inr (fresh_profiler, fresh_thread\<lparr>latch_held := True\<rparr>)"
proof -
  have h: "thread_state_get signal_context (fresh_thread\<lparr>latch_held := True\<rparr>) = None"
    by (simp add: thread_state_get_def)
  from samples_ready_latch_held [OF h] h show ?thesis
    by simp
qed

text \<open>The same signal with the latch free: the sample opens a round on line 7.\<close>

lemma samples_ready_latch_free:
  "samples_ready example_env [Sample 1 []] (fresh_profiler, fresh_thread)
     = Inr (fresh_profiler\<lparr>selected_line := Some 7, round_samples := 1, delay_size := 500000,
         generator := 1, line_samples := [7],
         out := Output [Ev_startup 1000000, Ev_start_round 7], global_delays := 1\<rparr>,
       fresh_thread\<lparr>delay_count := 1\<rparr>)"
  by (simp add: samples_ready_def thread_state_get_def process_samples_def process_record_def
      select_line_def compare_exchange_strong_def start_round_def emit_def count_sample_def
      add_sample_def add_delays_def sampler_stop_def sampler_start_def release_def Let_def
      example_env_def initial_profiler_def initial_thread_def fresh_profiler_def
      fresh_thread_def)

text \<open>
  C5. \<open>snapshot_delays\<close> followed by \<open>skip_delays\<close> on the same thread, the thread state
  untouched in between, sets \<open>delay_count\<close> to \<open>local_delay_snapshot +
  (global_delays - global_delay_snapshot)\<close>, where the snapshots are the thread's
  \<open>delay_count\<close> and the \<open>global_delays\<close> read by \<open>snapshot_delays\<close>, and \<open>global_delays\<close> is
  the value read by \<open>skip_delays\<close>; the profiler's state \<open>P2\<close> at the second call is any.
\<close>

theorem snapshot_then_skip:
  assumes "snapshot_delays P1 state = Inr s1"
    and "skip_delays P2 s1 = Inr s2"
  shows "delay_count s2 = local_delay_snapshot s2 + (global_delays P2 - global_delay_snapshot s2)
     \<and> local_delay_snapshot s2 = delay_count state
     \<and> global_delay_snapshot s2 = global_delays P1"
  using assms
  by (auto simp: snapshot_delays_def skip_delays_def thread_state_get_def release_def Let_def
      split: if_splits)

theorem snapshot_then_skip_witness:
  "snapshot_delays (fresh_profiler\<lparr>global_delays := 3\<rparr>) (fresh_thread\<lparr>delay_count := 5\<rparr>)
     = Inr (fresh_thread\<lparr>delay_count := 5, global_delay_snapshot := 3,
                         local_delay_snapshot := 5\<rparr>)
   \<and> skip_delays (fresh_profiler\<lparr>global_delays := 10\<rparr>)
        (fresh_thread\<lparr>delay_count := 5, global_delay_snapshot := 3, local_delay_snapshot := 5\<rparr>)
     = Inr (fresh_thread\<lparr>delay_count := 12, global_delay_snapshot := 3,
                         local_delay_snapshot := 5\<rparr>)
   \<and> delay_count (fresh_thread\<lparr>delay_count := 12, global_delay_snapshot := 3,
                                local_delay_snapshot := 5\<rparr>) = 5 + (10 - 3)"
proof -
  have h1: "snapshot_delays (fresh_profiler\<lparr>global_delays := 3\<rparr>)
      (fresh_thread\<lparr>delay_count := 5\<rparr>)
     = Inr (fresh_thread\<lparr>delay_count := 5, global_delay_snapshot := 3,
                         local_delay_snapshot := 5\<rparr>)"
    by (simp add: snapshot_delays_def thread_state_get_def release_def fresh_thread_def
        initial_thread_def)
  have h2: "skip_delays (fresh_profiler\<lparr>global_delays := 10\<rparr>)
        (fresh_thread\<lparr>delay_count := 5, global_delay_snapshot := 3, local_delay_snapshot := 5\<rparr>)
     = Inr (fresh_thread\<lparr>delay_count := 12, global_delay_snapshot := 3,
                         local_delay_snapshot := 5\<rparr>)"
    by (simp add: skip_delays_def thread_state_get_def release_def fresh_thread_def
        initial_thread_def)
  from snapshot_then_skip [OF h1 h2] h1 h2 show ?thesis
    by simp
qed

text \<open>
  C8. A thread created through \<open>handle_pthread_create\<close> reaches the call of its function
  with \<open>delay_count\<close> and \<open>excess_delay\<close> equal to those of the creating thread at the
  time of the creation, and it is the function and argument of the caller that are called.
\<close>

theorem child_inherits_delays:
  assumes "handle_pthread_create fn arg parent = Inr (new_arg, parent')"
    and "start_thread E new_arg child0 = Inr (real_fn, real_arg, child)"
  shows "delay_count child = delay_count parent \<and> excess_delay child = excess_delay parent
     \<and> real_fn = fn \<and> real_arg = arg"
  using assms
  by (auto simp: handle_pthread_create_def start_thread_def begin_sampling_def
      thread_state_get_def release_def sampler_start_def Let_def
      split: if_splits sum.splits)

theorem child_inherits_delays_witness:
  "handle_pthread_create 64 128 (fresh_thread\<lparr>delay_count := 4, excess_delay := 9\<rparr>)
     = Inr (\<lparr>arg_fn = 64, arg_arg = 128, parent_delay_count = 4, parent_excess_delay = 9\<rparr>,
            fresh_thread\<lparr>delay_count := 4, excess_delay := 9\<rparr>)
   \<and> start_thread example_env
        \<lparr>arg_fn = 64, arg_arg = 128, parent_delay_count = 4, parent_excess_delay = 9\<rparr>
        initial_thread
     = Inr (64, 128, fresh_thread\<lparr>delay_count := 4, excess_delay := 9\<rparr>)
   \<and> delay_count (fresh_thread\<lparr>delay_count := 4, excess_delay := 9\<rparr>) = 4
   \<and> excess_delay (fresh_thread\<lparr>delay_count := 4, excess_delay := 9\<rparr>) = 9"
proof -
  have h1: "handle_pthread_create 64 128 (fresh_thread\<lparr>delay_count := 4, excess_delay := 9\<rparr>)
     = Inr (\<lparr>arg_fn = 64, arg_arg = 128, parent_delay_count = 4, parent_excess_delay = 9\<rparr>,
            fresh_thread\<lparr>delay_count := 4, excess_delay := 9\<rparr>)"
    by (simp add: handle_pthread_create_def thread_state_get_def release_def fresh_thread_def
        initial_thread_def)
  have h2: "start_thread example_env
        \<lparr>arg_fn = 64, arg_arg = 128, parent_delay_count = 4, parent_excess_delay = 9\<rparr>
        initial_thread
     = Inr (64, 128, fresh_thread\<lparr>delay_count := 4, excess_delay := 9\<rparr>)"
    by (simp add: start_thread_def begin_sampling_def thread_state_get_def release_def
        sampler_start_def fresh_thread_def initial_thread_def example_env_def Let_def)
  from child_inherits_delays [OF h1 h2] h1 h2 show ?thesis
    by simp
qed

text \<open>
  C10. When \<open>process_samples\<close> comes to a sample that resolves to no known line while no
  line is selected and no fixed line is configured, it returns at once: whatever records
  \<open>rest\<close> follow, the result is the state reached just before that sample, so the
  remaining records are not processed and \<open>add_delays\<close> has not run, and the sampler is
  left stopped.
\<close>

theorem out_of_scope_sample_returns:
  assumes "process_loop E pre (P, sampler_stop state) = Inr (Next, P1, state1)"
    and "is_sample r" and "find_containing_line E r = None"
    and "selected_line P1 = None" and "fixed_line P1 = None"
  shows "process_samples E (pre @ r # rest) (P, state) = Inr (P1, state1)
     \<and> \<not> sampler_running state1"
proof -
  have "process_record E r (P1, state1) = Inr (Return, P1, state1)"
    using assms(2-5) by (simp add: process_record_def select_line_def)
  then have "process_loop E (r # rest) (P1, state1) = Inr (Return, P1, state1)"
    by simp
  with process_loop_append [OF assms(1)]
  have "process_loop E (pre @ r # rest) (P, sampler_stop state) = Inr (Return, P1, state1)"
    by simp
  moreover from process_loop_keeps [OF assms(1)] have "\<not> sampler_running state1"
    by (simp add: sampler_stop_def)
  ultimately show ?thesis
    by (simp add: process_samples_def)
qed

text \<open>
  A thread that is one delay behind takes a whole round of two samples on line 7, then an
  out-of-scope sample, then another sample on line 7. The call ends at the third record:
  line 7 has two samples, not three, the thread is still one delay behind and has not
  slept, and its sampler is off.
\<close>

theorem out_of_scope_sample_returns_witness:
  "process_loop example_env [Sample 1 [], Sample 1 []]
       (fresh_profiler\<lparr>global_delays := 3\<rparr>, sampler_stop (fresh_thread\<lparr>delay_count := 0\<rparr>))
     = Inr (Next,
         fresh_profiler\<lparr>global_delays := 3, round_samples := 2, round_start_delays := 3,
           delay_size := 500000, generator := 1, line_samples := [7, 7],
           out := Output [Ev_startup 1000000, Ev_start_round 7, Ev_end_round 0 500000]\<rparr>,
         fresh_thread\<lparr>delay_count := 2, sampler_running := False\<rparr>)
   \<and> process_samples example_env ([Sample 1 [], Sample 1 []] @ Sample 0 [2, 3] # [Sample 1 []])
       (fresh_profiler\<lparr>global_delays := 3\<rparr>, fresh_thread\<lparr>delay_count := 0\<rparr>)
     = Inr (fresh_profiler\<lparr>global_delays := 3, round_samples := 2, round_start_delays := 3,
           delay_size := 500000, generator := 1, line_samples := [7, 7],
           out := Output [Ev_startup 1000000, Ev_start_round 7, Ev_end_round 0 500000]\<rparr>,
         fresh_thread\<lparr>delay_count := 2, sampler_running := False\<rparr>)"
proof -
  have h1: "process_loop example_env [Sample 1 [], Sample 1 []]
       (fresh_profiler\<lparr>global_delays := 3\<rparr>, sampler_stop (fresh_thread\<lparr>delay_count := 0\<rparr>))
     = Inr (Next,
         fresh_profiler\<lparr>global_delays := 3, round_samples := 2, round_start_delays := 3,
           delay_size := 500000, generator := 1, line_samples := [7, 7],
           out := Output [Ev_startup 1000000, Ev_start_round 7, Ev_end_round 0 500000]\<rparr>,
         fresh_thread\<lparr>delay_count := 2, sampler_running := False\<rparr>)"
    by (simp add: process_record_def select_line_def compare_exchange_strong_def
        start_round_def emit_def count_sample_def add_sample_def sampler_stop_def Let_def
        example_env_def initial_profiler_def initial_thread_def fresh_profiler_def
        fresh_thread_def)
  have h2: "is_sample (Sample 0 [2, 3])" by simp
  have h3: "find_containing_line example_env (Sample 0 [2, 3]) = None"
    by (simp add: example_env_def)
  from out_of_scope_sample_returns [OF h1 h2 h3, of "[Sample 1 []]"] h1 show ?thesis
    by (simp add: fresh_profiler_def initial_profiler_def)
qed

text \<open>
  C1 says that such a sample is skipped and the samples after it in the buffer are still
  processed. Evaluated on a buffer of an out-of-scope sample followed by a sample on
  line 7, with no line selected and no fixed line, \<open>process_samples\<close> leaves the profiler
  as it was (line 7 gets no sample, no round opens) and the sampler stopped, whereas the
  sample on line 7 alone opens a round.
\<close>

theorem out_of_scope_sample_drops_rest:
  "process_samples example_env [Sample 0 [], Sample 1 []] (fresh_profiler, fresh_thread)
     = Inr (fresh_profiler, fresh_thread\<lparr>sampler_running := False\<rparr>)
   \<and> process_samples example_env [Sample 1 []] (fresh_profiler, fresh_thread)
     = Inr (fresh_profiler\<lparr>selected_line := Some 7, round_samples := 1, delay_size := 500000,
         generator := 1, line_samples := [7],
         out := Output [Ev_startup 1000000, Ev_start_round 7], global_delays := 1\<rparr>,
       fresh_thread\<lparr>delay_count := 1\<rparr>)"
  by (simp add: process_samples_def process_record_def
      select_line_def compare_exchange_strong_def start_round_def emit_def count_sample_def
      add_sample_def add_delays_def sampler_stop_def sampler_start_def Let_def
      example_env_def initial_profiler_def initial_thread_def fresh_profiler_def
      fresh_thread_def)

lemmas model_defs =
  samples_ready_def thread_state_get_def process_samples_def process_record_def
  select_line_def compare_exchange_strong_def start_round_def emit_def count_sample_def
  add_sample_def add_delays_def sampler_stop_def sampler_start_def sampler_close_def
  release_def Let_def on_both_def on_thread_def catch_up_def end_sampling_def shutdown_def
  test_and_set_def report_end_to_end_def delete_out_def

lemmas example_defs =
  example_env_def initial_profiler_def initial_thread_def fresh_profiler_def
  fresh_thread_def example_system_def

text \<open>The fresh profiler is the initial one after \<open>startup\<close>.\<close>

lemma startup_fresh:
  "startup example_env [] [] (- 1) 0 (initial_profiler, initial_thread)
     = Inr (fresh_profiler, fresh_thread)"
  by (simp add: startup_def emit_def begin_sampling_def thread_state_get_def release_def
      sampler_start_def Let_def example_defs)

subsection \<open>Sessions\<close>

lemma update_shutdown_run_same: "shutdown_run P \<Longrightarrow> P\<lparr>shutdown_run := True\<rparr> = P"
  by (cases P) simp

lemma shutdown_set: "shutdown_run P \<Longrightarrow> shutdown E now records (P, state) = Inr (P, state)"
  by (simp add: shutdown_def test_and_set_def update_shutdown_run_same)

lemma delete_out_fields:
  "fixed_line (delete_out P) = fixed_line P" "fixed_delay_size (delete_out P) = fixed_delay_size P"
  "start_time (delete_out P) = start_time P" "shutdown_run (delete_out P) = shutdown_run P"
  "stderr (delete_out P) = stderr P" "global_delays (delete_out P) = global_delays P"
  by (simp_all add: delete_out_def split: output_ptr.splits)

lemma shutdown_clear:
  assumes "\<not> shutdown_run P" and "shutdown E now records (P, state) = Inr (P', state')"
  shows "\<exists>P1 es. end_sampling E records (P\<lparr>shutdown_run := True\<rparr>, state) = Inr (P1, state')
     \<and> out P1 = Output es
     \<and> P' = P1\<lparr>out := Deleted (es @ [Ev_shutdown]), stderr := stderr P'\<rparr>
     \<and> stderr P' = stderr P1 @
         (if fixed_line P1 \<noteq> None \<and> fixed_delay_size P1 \<noteq> - 1
          then [End_to_end (fixed_delay_size P1) (SamplePeriod E)
                  ((now - start_time P1) - global_delays P1 * fixed_delay_size P1)]
          else [])"
proof -
  from assms obtain P1 P2 where
    e: "end_sampling E records (P\<lparr>shutdown_run := True\<rparr>, state) = Inr (P1, state')" and
    m: "emit Ev_shutdown P1 = Inr P2" and
    r: "P' = report_end_to_end E now (delete_out P2)"
    by (auto simp: shutdown_def test_and_set_def split: sum.splits)
  from m obtain es where o: "out P1 = Output es" and
    p2: "P2 = P1\<lparr>out := Output (es @ [Ev_shutdown])\<rparr>"
    by (auto simp: emit_Inr)
  from p2 have d: "delete_out P2 = P1\<lparr>out := Deleted (es @ [Ev_shutdown])\<rparr>"
    by (simp add: delete_out_def)
  from r d have "P' = P1\<lparr>out := Deleted (es @ [Ev_shutdown]), stderr := stderr P'\<rparr>
     \<and> stderr P' = stderr P1 @
         (if fixed_line P1 \<noteq> None \<and> fixed_delay_size P1 \<noteq> - 1
          then [End_to_end (fixed_delay_size P1) (SamplePeriod E)
                  ((now - start_time P1) - global_delays P1 * fixed_delay_size P1)]
          else [])"
    by (simp add: report_end_to_end_def Let_def)
  with e o show ?thesis by blast
qed

lemma shutdown_advances:
  assumes "shutdown E now records (P, state) = Inr (P', state')"
  shows "global_delays P \<le> global_delays P' \<and> shutdown_run P'"
proof (cases "shutdown_run P")
  case True
  with assms show ?thesis by (simp add: shutdown_set)
next
  case False
  from shutdown_clear [OF False assms] obtain P1 es where
    e: "end_sampling E records (P\<lparr>shutdown_run := True\<rparr>, state) = Inr (P1, state')"
    and p: "P' = P1\<lparr>out := Deleted (es @ [Ev_shutdown]), stderr := stderr P'\<rparr>"
    by blast
  from end_sampling_keeps [OF e] have "global_delays P \<le> global_delays P1" "shutdown_run P1"
    by (simp_all add: keeps_session_def)
  moreover from arg_cong [OF p, of global_delays] have "global_delays P' = global_delays P1"
    by simp
  moreover from arg_cong [OF p, of shutdown_run] have "shutdown_run P' = shutdown_run P1"
    by simp
  ultimately show ?thesis by simp
qed

lemma register_lines_keeps:
  "register_lines E names P = Inr P' \<Longrightarrow>
     global_delays P' = global_delays P \<and> shutdown_run P' = shutdown_run P"
proof (induction names arbitrary: P)
  case Nil
  then show ?case by simp
next
  case (Cons n names)
  then show ?case
    by (fastforce simp: emit_Inr warn_def split: option.splits sum.splits)
qed

lemma startup_keeps:
  "startup E names fixed_line_name fixed_speedup now (P, state) = Inr (P', state') \<Longrightarrow>
     global_delays P' = global_delays P \<and> shutdown_run P' = shutdown_run P"
  by (auto simp: startup_def Let_def emit_Inr warn_def
      split: sum.splits if_splits dest!: register_lines_keeps)

lemma run_call_advances:
  assumes "run_call E t c S = Inr S'"
  shows "global_delays (prof S) \<le> global_delays (prof S')
     \<and> (shutdown_run (prof S) \<longrightarrow> shutdown_run (prof S'))"
proof (cases c)
  case (Startup names fl fs now)
  with assms show ?thesis
    by (auto simp: on_both_def split: sum.splits dest!: startup_keeps)
next
  case (Shutdown now records)
  with assms show ?thesis
    by (auto simp: on_both_def split: sum.splits dest!: shutdown_advances)
next
  case (Pthread_create child fn arg)
  with assms show ?thesis
    by (auto simp: on_thread_def Let_def split: sum.splits)
next
  case (Pthread_exit records)
  with assms show ?thesis
    by (auto simp: on_both_def handle_pthread_exit_def keeps_session_def
        split: sum.splits dest!: end_sampling_keeps)
next
  case Snapshot_delays
  with assms show ?thesis by (auto simp: on_thread_def split: sum.splits)
next
  case Skip_delays
  with assms show ?thesis by (auto simp: on_thread_def split: sum.splits)
next
  case Catch_up
  with assms show ?thesis
    by (auto simp: on_both_def keeps_session_def split: sum.splits dest!: catch_up_keeps)
next
  case Begin_sampling
  with assms show ?thesis by (auto simp: on_thread_def split: sum.splits)
next
  case (End_sampling records)
  with assms show ?thesis
    by (auto simp: on_both_def keeps_session_def split: sum.splits dest!: end_sampling_keeps)
next
  case (Samples_ready records)
  with assms show ?thesis
    by (auto simp: on_both_def keeps_session_def split: sum.splits dest!: samples_ready_keeps)
qed

lemma session_shutdown_run:
  "session E cs S = Inr S' \<Longrightarrow> shutdown_run (prof S) \<Longrightarrow> shutdown_run (prof S')"
proof (induction cs arbitrary: S)
  case Nil
  then show ?case by simp
next
  case (Cons tc cs)
  obtain t c where tc: "tc = (t, c)" by (cases tc)
  with Cons.prems obtain S1 where
    "run_call E t c S = Inr S1" "session E cs S1 = Inr S'"
    by (auto split: sum.splits)
  with Cons.IH [of S1] run_call_advances [of E t c S S1] Cons.prems(2) show ?case
    by simp
qed

text \<open>
  C6. A call of \<open>shutdown\<close> that finds the flag clear writes to standard error exactly one
  line when a fixed line is set and \<open>fixed_delay_size\<close> is not the sentinel \<open>-1\<close>, and
  nothing otherwise. The line carries \<open>fixed_delay_size\<close> and \<open>SamplePeriod\<close>, whose
  quotient is printed with \<^verbatim>\<open>%f\<close>, and after the tab
  \<open>effective_time = (now - start_time) - global_delays * fixed_delay_size\<close>, with
  \<open>global_delays\<close> as it is when the line is printed.
\<close>

theorem shutdown_end_to_end_report:
  assumes "\<not> shutdown_run P" and "shutdown E now records (P, state) = Inr (P', state')"
  shows "stderr P' = stderr P @
           (if fixed_line P \<noteq> None \<and> fixed_delay_size P \<noteq> - 1
            then [End_to_end (fixed_delay_size P) (SamplePeriod E)
                    ((now - start_time P) - global_delays P' * fixed_delay_size P)]
            else [])"
proof -
  from shutdown_clear [OF assms] obtain P1 es where
    e: "end_sampling E records (P\<lparr>shutdown_run := True\<rparr>, state) = Inr (P1, state')" and
    p: "P' = P1\<lparr>out := Deleted (es @ [Ev_shutdown]), stderr := stderr P'\<rparr>" and
    s: "stderr P' = stderr P1 @
         (if fixed_line P1 \<noteq> None \<and> fixed_delay_size P1 \<noteq> - 1
          then [End_to_end (fixed_delay_size P1) (SamplePeriod E)
                  ((now - start_time P1) - global_delays P1 * fixed_delay_size P1)]
          else [])"
    by blast
  from end_sampling_keeps [OF e] have k:
    "fixed_line P1 = fixed_line P" "fixed_delay_size P1 = fixed_delay_size P"
    "start_time P1 = start_time P" "stderr P1 = stderr P"
    by (simp_all add: keeps_session_def)
  from arg_cong [OF p, of global_delays] have "global_delays P' = global_delays P1"
    by simp
  with s k show ?thesis by simp
qed

text \<open>In end-to-end mode on line 7 with half the sampling period as delay: the run took
  \<open>10000000 - 100\<close>, one delay of \<open>500000\<close> was issued.\<close>

theorem shutdown_end_to_end_report_witness:
  "\<not> shutdown_run (fresh_profiler\<lparr>fixed_line := Some 7, fixed_delay_size := 500000,
                                   start_time := 100\<rparr>)
   \<and> (\<exists>P' state'.
         shutdown example_env 10000000 [Sample 1 []]
           (fresh_profiler\<lparr>fixed_line := Some 7, fixed_delay_size := 500000, start_time := 100\<rparr>,
            fresh_thread) = Inr (P', state')
       \<and> global_delays P' = 1
       \<and> stderr P' = [End_to_end 500000 1000000 9499900])"
proof -
  let ?P = "fresh_profiler\<lparr>fixed_line := Some 7, fixed_delay_size := 500000, start_time := 100\<rparr>"
  let ?R = "projr (shutdown example_env 10000000 [Sample 1 []] (?P, fresh_thread))"
  have h0: "\<not> shutdown_run ?P"
    by (simp add: example_defs)
  have h: "shutdown example_env 10000000 [Sample 1 []] (?P, fresh_thread) = Inr (fst ?R, snd ?R)"
    by (simp add: model_defs example_defs)
  have g: "global_delays (fst ?R) = 1"
    by (simp add: model_defs example_defs)
  from shutdown_end_to_end_report [OF h0 h] g
  have "stderr (fst ?R) = [End_to_end 500000 1000000 9499900]"
    by (simp add: example_defs example_env_def)
  with h0 h g show ?thesis
    by blast
qed

text \<open>Without a fixed line the same call prints nothing.\<close>

lemma shutdown_no_report:
  "\<exists>P' state'.
     shutdown example_env 10000000 [Sample 1 []]
       (fresh_profiler\<lparr>fixed_delay_size := 500000, start_time := 100\<rparr>, fresh_thread)
       = Inr (P', state')
     \<and> stderr P' = []"
  by (simp add: model_defs example_defs)

text \<open>
  C7. \<open>shutdown\<close> is idempotent. The first call, which finds the flag clear, sets it and
  performs the teardown: \<open>end_sampling\<close> on the calling thread, the shutdown event on the
  output object, the deletion of that object, and the report of C6, which touches
  standard error only. Every later call of \<open>shutdown\<close>, by any thread \<open>t'\<close> and after any
  further calls \<open>cs\<close> of the session, leaves the whole system as it is.
\<close>

theorem shutdown_idempotent:
  assumes "\<not> shutdown_run (prof S)"
    and "run_call E t (Shutdown now records) S = Inr S1"
    and "session E cs S1 = Inr S2"
  shows "shutdown_run (prof S1)
     \<and> (\<exists>P1 es. end_sampling E records ((prof S)\<lparr>shutdown_run := True\<rparr>, threads S t)
                    = Inr (P1, threads S1 t)
                \<and> out P1 = Output es
                \<and> prof S1 = P1\<lparr>out := Deleted (es @ [Ev_shutdown]),
                                stderr := stderr (prof S1)\<rparr>)
     \<and> run_call E t' (Shutdown now' records') S2 = Inr S2"
proof -
  from assms(2) obtain P' state' where
    sh: "shutdown E now records (prof S, threads S t) = Inr (P', state')" and
    s1: "S1 = S\<lparr>prof := P', threads := (threads S)(t := state')\<rparr>"
    by (auto simp: on_both_def split: sum.splits)
  from shutdown_advances [OF sh] s1 have set1: "shutdown_run (prof S1)"
    by simp
  from shutdown_clear [OF assms(1) sh] s1
  have teardown: "\<exists>P1 es. end_sampling E records ((prof S)\<lparr>shutdown_run := True\<rparr>, threads S t)
                    = Inr (P1, threads S1 t)
                \<and> out P1 = Output es
                \<and> prof S1 = P1\<lparr>out := Deleted (es @ [Ev_shutdown]),
                                stderr := stderr (prof S1)\<rparr>"
    by auto
  from session_shutdown_run [OF assms(3) set1]
  have "shutdown E now' records' (prof S2, threads S2 t') = Inr (prof S2, threads S2 t')"
    by (rule shutdown_set)
  then have "run_call E t' (Shutdown now' records') S2 = Inr S2"
    by (simp add: on_both_def)
  with set1 teardown show ?thesis by blast
qed

text \<open>Thread 0 shuts down in end-to-end mode, thread 1 catches up, then thread 1 calls
  \<open>shutdown\<close> as well: the report is still the single line of the first call.\<close>

theorem shutdown_idempotent_witness:
  "\<not> shutdown_run (prof (example_system\<lparr>prof := fresh_profiler\<lparr>fixed_line := Some 7,
         fixed_delay_size := 500000, start_time := 100\<rparr>\<rparr>))
   \<and> (\<exists>S1 S2.
         run_call example_env 0 (Shutdown 10000000 [Sample 1 []])
           (example_system\<lparr>prof := fresh_profiler\<lparr>fixed_line := Some 7,
              fixed_delay_size := 500000, start_time := 100\<rparr>\<rparr>) = Inr S1
       \<and> session example_env [(1, Catch_up)] S1 = Inr S2
       \<and> shutdown_run (prof S1)
       \<and> out (prof S1) = Deleted [Ev_startup 1000000, Ev_start_round 7, Ev_shutdown]
       \<and> run_call example_env 1 (Shutdown 20000000 [Sample 1 []]) S2 = Inr S2
       \<and> stderr (prof S2) = [End_to_end 500000 1000000 9499900])"
proof -
  let ?S = "example_system\<lparr>prof := fresh_profiler\<lparr>fixed_line := Some 7,
              fixed_delay_size := 500000, start_time := 100\<rparr>\<rparr>"
  let ?S1 = "projr (run_call example_env 0 (Shutdown 10000000 [Sample 1 []]) ?S)"
  let ?S2 = "projr (session example_env [(1, Catch_up)] ?S1)"
  have h0: "\<not> shutdown_run (prof ?S)"
    by (simp add: example_defs)
  have h1: "run_call example_env 0 (Shutdown 10000000 [Sample 1 []]) ?S = Inr ?S1"
    by (simp add: model_defs example_defs)
  have h2: "session example_env [(1, Catch_up)] ?S1 = Inr ?S2"
    by (simp add: model_defs example_defs)
  have v: "out (prof ?S1) = Deleted [Ev_startup 1000000, Ev_start_round 7, Ev_shutdown]
     \<and> stderr (prof ?S2) = [End_to_end 500000 1000000 9499900]"
    by (simp add: model_defs example_defs)
  from shutdown_idempotent [OF h0 h1 h2, of 1 20000000 "[Sample 1 []]"]
  have "shutdown_run (prof ?S1)
     \<and> run_call example_env 1 (Shutdown 20000000 [Sample 1 []]) ?S2 = Inr ?S2"
    by simp
  with h0 h1 h2 v show ?thesis
    by blast
qed

subsection \<open>The end of a round\<close>

text \<open>The cuts do not change what a thread computes.\<close>

lemma solo_add:
  "solo E (m + n) C = (case solo E m C of Inl e \<Rightarrow> Inl e | Inr C1 \<Rightarrow> solo E n C1)"
  by (induction m arbitrary: C) (auto split: sum.splits)

lemma interleave_replicate:
  "interleave E (replicate n t) (P, ws) =
     (case solo E n (P, ws t) of Inl e \<Rightarrow> Inl e | Inr (P', w') \<Rightarrow> Inr (P', ws(t := w')))"
proof (induction n arbitrary: P ws)
  case 0
  then show ?case by simp
next
  case (Suc n)
  show ?case
  proof (cases "worker_step E (P, ws t)")
    case (Inl e)
    then show ?thesis by simp
  next
    case (Inr C1)
    obtain P1 w1 where C1: "C1 = (P1, w1)" by (cases C1)
    have "interleave E (replicate (Suc n) t) (P, ws) =
        interleave E (replicate n t) (P1, ws(t := w1))"
      using Inr C1 by simp
    also have "\<dots> = (case solo E n (P1, w1) of
        Inl e \<Rightarrow> Inl e | Inr (P', w') \<Rightarrow> Inr (P', ws(t := w')))"
      by (simp add: Suc.IH split: sum.splits)
    finally show ?thesis using Inr C1 by simp
  qed
qed

lemma solo_count:
  assumes "count_sample E l cur (P, st) = Inr (P', st')"
  shows "\<exists>n. solo E n (P, \<lparr>wstate = st, wpc = Have_line l cur, wrecords = rs\<rparr>)
              = Inr (P', \<lparr>wstate = st', wpc = Loop_head, wrecords = rs\<rparr>)"
proof (cases "cur \<noteq> None \<and> round_samples P + 1 = MinRoundSamples E")
  case True
  with assms have "solo E (Suc (Suc 0)) (P, \<lparr>wstate = st, wpc = Have_line l cur, wrecords = rs\<rparr>)
              = Inr (P', \<lparr>wstate = st', wpc = Loop_head, wrecords = rs\<rparr>)"
    by (auto simp: count_sample_def worker_step_def Let_def split: sum.splits)
  then show ?thesis ..
next
  case False
  with assms have "solo E (Suc 0) (P, \<lparr>wstate = st, wpc = Have_line l cur, wrecords = rs\<rparr>)
              = Inr (P', \<lparr>wstate = st', wpc = Loop_head, wrecords = rs\<rparr>)"
    by (auto simp: count_sample_def worker_step_def Let_def split: if_splits)
  then show ?thesis ..
qed


lemma process_record_sample:
  assumes "is_sample r" and "find_containing_line E r = l"
    and "(case l of Some x \<Rightarrow> add_sample x P | None \<Rightarrow> P) = P1"
  shows "process_record E r (P, st) =
      (case select_line E l (selected_line P1) P1 of
         Inl e \<Rightarrow> Inl e
       | Inr None \<Rightarrow> Inr (Return, P1, st)
       | Inr (Some (l', c', P2)) \<Rightarrow>
           (case count_sample E l' c' (P2, st) of
              Inl e \<Rightarrow> Inl e
            | Inr PS \<Rightarrow> Inr (Next, PS)))"
  unfolding process_record_def Let_def prod.case assms(2) assms(3)
  using assms(1) by simp

lemma worker_step_sample:
  assumes "is_sample r" and "find_containing_line E r = l"
    and "(case l of Some x \<Rightarrow> add_sample x P | None \<Rightarrow> P) = P1"
  shows "worker_step E (P, \<lparr>wstate = st, wpc = Loop_head, wrecords = r # rs\<rparr>) =
      (if selected_line P1 = None then
         (case (if fixed_line P1 \<noteq> None then fixed_line P1 else l) of
            Some x \<Rightarrow>
              (case compare_exchange_strong None
                      (if fixed_line P1 \<noteq> None then fixed_line P1 else l) P1 of
                 (True, P2) \<Rightarrow>
                   Inr (P2, \<lparr>wstate = st, wpc = Won_exchange x, wrecords = rs\<rparr>)
               | (False, P2) \<Rightarrow>
                   Inr (P2, \<lparr>wstate = st,
                              wpc = Have_line (if fixed_line P1 \<noteq> None then fixed_line P1 else l)
                                      (selected_line P2),
                              wrecords = rs\<rparr>))
          | None \<Rightarrow> Inr (P1, \<lparr>wstate = st, wpc = Left, wrecords = rs\<rparr>))
       else Inr (P1, \<lparr>wstate = st, wpc = Have_line l (selected_line P1), wrecords = rs\<rparr>))"
  unfolding worker_step_def Let_def prod.case worker.select_convs pc.case list.case
    assms(2) assms(3) worker.update_convs
  using assms(1) by simp

lemma solo_exchange:
  assumes "is_sample r" and "find_containing_line E r = l"
    and "(case l of Some x \<Rightarrow> add_sample x P | None \<Rightarrow> P) = P1"
    and "selected_line P1 = None"
    and "(if fixed_line P1 \<noteq> None then fixed_line P1 else l) = Some x"
    and "process_record E r (P, st) = Inr (f, P', st')"
  shows "\<exists>n. solo E n (P, \<lparr>wstate = st, wpc = Loop_head, wrecords = r # rs\<rparr>)
              = Inr (P', \<lparr>wstate = st', wpc = pc_after f, wrecords = rs\<rparr>)"
proof -
  have sl: "select_line E l None P1 =
      (case start_round E x (P1\<lparr>selected_line := Some x\<rparr>) of
         Inl e \<Rightarrow> Inl e
       | Inr P2 \<Rightarrow> Inr (Some (Some x, Some x, P2)))"
    using assms(4,5)
    by (simp add: select_line_def compare_exchange_strong_def Let_def)
  from assms(6) obtain P2 where
    sr: "start_round E x (P1\<lparr>selected_line := Some x\<rparr>) = Inr P2" and
    c: "count_sample E (Some x) (Some x) (P2, st) = Inr (P', st')" and f: "f = Next"
    by (auto simp: process_record_sample [OF assms(1-3)] assms(4) sl split: sum.splits)
  from assms(4,5)
  have first: "worker_step E (P, \<lparr>wstate = st, wpc = Loop_head, wrecords = r # rs\<rparr>)
    = Inr (P1\<lparr>selected_line := Some x\<rparr>, \<lparr>wstate = st, wpc = Won_exchange x, wrecords = rs\<rparr>)"
    by (simp add: worker_step_sample [OF assms(1-3)] compare_exchange_strong_def)
  from sr
  have second: "worker_step E (P1\<lparr>selected_line := Some x\<rparr>,
        \<lparr>wstate = st, wpc = Won_exchange x, wrecords = rs\<rparr>)
    = Inr (P2, \<lparr>wstate = st, wpc = Have_line (Some x) (Some x), wrecords = rs\<rparr>)"
    by (simp add: worker_step_def)
  from solo_count [OF c, of rs] obtain n where
    "solo E n (P2, \<lparr>wstate = st, wpc = Have_line (Some x) (Some x), wrecords = rs\<rparr>)
          = Inr (P', \<lparr>wstate = st', wpc = Loop_head, wrecords = rs\<rparr>)" ..
  with first second f
  have "solo E (Suc (Suc n)) (P, \<lparr>wstate = st, wpc = Loop_head, wrecords = r # rs\<rparr>)
          = Inr (P', \<lparr>wstate = st', wpc = pc_after f, wrecords = rs\<rparr>)"
    by (simp add: pc_after_def)
  then show ?thesis ..
qed

lemma solo_record:
  assumes "process_record E r (P, st) = Inr (f, P', st')"
  shows "\<exists>n. solo E n (P, \<lparr>wstate = st, wpc = Loop_head, wrecords = r # rs\<rparr>)
              = Inr (P', \<lparr>wstate = st', wpc = pc_after f, wrecords = rs\<rparr>)"
proof (cases "is_sample r")
  case False
  with assms have "solo E (Suc 0) (P, \<lparr>wstate = st, wpc = Loop_head, wrecords = r # rs\<rparr>)
              = Inr (P', \<lparr>wstate = st', wpc = pc_after f, wrecords = rs\<rparr>)"
    by (auto simp: process_record_def worker_step_def pc_after_def)
  then show ?thesis ..
next
  case True
  obtain l where l: "find_containing_line E r = l" by simp
  obtain P1 where P1: "(case l of Some x \<Rightarrow> add_sample x P | None \<Rightarrow> P) = P1" by simp
  note pr = process_record_sample [OF True l P1]
  note ws = worker_step_sample [OF True l P1]
  show ?thesis
  proof (cases "selected_line P1")
    case (Some c)
    with assms have c: "count_sample E l (Some c) (P1, st) = Inr (P', st')" and f: "f = Next"
      by (auto simp: pr select_line_def split: sum.splits)
    from Some have first: "worker_step E (P, \<lparr>wstate = st, wpc = Loop_head, wrecords = r # rs\<rparr>)
        = Inr (P1, \<lparr>wstate = st, wpc = Have_line l (Some c), wrecords = rs\<rparr>)"
      by (simp add: ws)
    from solo_count [OF c, of rs] obtain n where
      "solo E n (P1, \<lparr>wstate = st, wpc = Have_line l (Some c), wrecords = rs\<rparr>)
              = Inr (P', \<lparr>wstate = st', wpc = Loop_head, wrecords = rs\<rparr>)" ..
    with first f have "solo E (Suc n) (P, \<lparr>wstate = st, wpc = Loop_head, wrecords = r # rs\<rparr>)
              = Inr (P', \<lparr>wstate = st', wpc = pc_after f, wrecords = rs\<rparr>)"
      by (simp add: pc_after_def)
    then show ?thesis ..
  next
    case None
    show ?thesis
    proof (cases "fixed_line P1")
      case (Some y)
      then have "(if fixed_line P1 \<noteq> None then fixed_line P1 else l) = Some y" by simp
      from solo_exchange [OF True l P1 None this assms] show ?thesis .
    next
      case no_fixed: None
      show ?thesis
      proof (cases l)
        case (Some x)
        with no_fixed have "(if fixed_line P1 \<noteq> None then fixed_line P1 else l) = Some x"
          by simp
        from solo_exchange [OF True l P1 None this assms] show ?thesis .
      next
        case no_line: None
        with assms None no_fixed have "P' = P1" "st' = st" "f = Return"
          by (simp_all add: pr select_line_def)
        moreover from None no_fixed no_line
        have "worker_step E (P, \<lparr>wstate = st, wpc = Loop_head, wrecords = r # rs\<rparr>)
          = Inr (P1, \<lparr>wstate = st, wpc = Left, wrecords = rs\<rparr>)"
          by (simp add: ws)
        ultimately
        have "solo E (Suc 0) (P, \<lparr>wstate = st, wpc = Loop_head, wrecords = r # rs\<rparr>)
                = Inr (P', \<lparr>wstate = st', wpc = pc_after f, wrecords = rs\<rparr>)"
          by (simp add: pc_after_def)
        then show ?thesis ..
      qed
    qed
  qed
qed

lemma solo_loop:
  assumes "process_loop E rs (P, st) = Inr (f, P', st')"
  shows "\<exists>n rest. solo E n (P, \<lparr>wstate = st, wpc = Loop_head, wrecords = rs\<rparr>)
              = Inr (P', \<lparr>wstate = st', wpc = pc_after f, wrecords = rest\<rparr>)
           \<and> (f = Next \<longrightarrow> rest = [])"
  using assms
proof (induction rs arbitrary: P st)
  case Nil
  then have "solo E 0 (P, \<lparr>wstate = st, wpc = Loop_head, wrecords = []\<rparr>)
              = Inr (P', \<lparr>wstate = st', wpc = pc_after f, wrecords = []\<rparr>)"
    by (simp add: pc_after_def)
  then show ?case by blast
next
  case (Cons r rs)
  from Cons.prems obtain g P1 s1 where
    step: "process_record E r (P, st) = Inr (g, P1, s1)"
    by (auto split: sum.splits)
  from solo_record [OF step, of rs] obtain m where
    m: "solo E m (P, \<lparr>wstate = st, wpc = Loop_head, wrecords = r # rs\<rparr>)
              = Inr (P1, \<lparr>wstate = s1, wpc = pc_after g, wrecords = rs\<rparr>)" ..
  show ?case
  proof (cases g)
    case Return
    with Cons.prems step have "f = Return" "P' = P1" "st' = s1" by simp_all
    with m Return show ?thesis by auto
  next
    case Next
    with Cons.prems step have "process_loop E rs (P1, s1) = Inr (f, P', st')" by simp
    from Cons.IH [OF this] obtain n rest where
      n: "solo E n (P1, \<lparr>wstate = s1, wpc = Loop_head, wrecords = rs\<rparr>)
              = Inr (P', \<lparr>wstate = st', wpc = pc_after f, wrecords = rest\<rparr>)"
      and r: "f = Next \<longrightarrow> rest = []"
      by blast
    from m n Next have "solo E (m + n) (P, \<lparr>wstate = st, wpc = Loop_head, wrecords = r # rs\<rparr>)
              = Inr (P', \<lparr>wstate = st', wpc = pc_after f, wrecords = rest\<rparr>)"
      by (simp add: solo_add pc_after_def)
    with r show ?thesis by blast
  qed
qed

text \<open>A thread that is never interrupted computes \<open>process_samples\<close>.\<close>

lemma alone_is_process_samples:
  assumes "process_samples E rs (P, st) = Inr (P', st')"
  shows "\<exists>n w'. interleave E (replicate n t) (P, ws(t := enter rs st)) = Inr (P', ws(t := w'))
           \<and> wstate w' = st' \<and> wpc w' = Left"
proof -
  from assms obtain f P1 s1 where
    loop: "process_loop E rs (P, sampler_stop st) = Inr (f, P1, s1)"
    by (auto simp: process_samples_def split: sum.splits)
  from solo_loop [OF loop] obtain n rest where
    n: "solo E n (P, enter rs st) = Inr (P1, \<lparr>wstate = s1, wpc = pc_after f, wrecords = rest\<rparr>)"
    and r: "f = Next \<longrightarrow> rest = []"
    by (auto simp: enter_def)
  show ?thesis
  proof (cases f)
    case Return
    with assms loop have "P' = P1" "st' = s1" by (simp_all add: process_samples_def)
    with n Return
    have "interleave E (replicate n t) (P, ws(t := enter rs st))
            = Inr (P', ws(t := \<lparr>wstate = s1, wpc = Left, wrecords = rest\<rparr>))"
      by (simp add: interleave_replicate pc_after_def)
    with \<open>st' = s1\<close> show ?thesis by fastforce
  next
    case Next
    obtain P2 s2 where ad: "add_delays E (P1, s1) = (P2, s2)"
      by (cases "add_delays E (P1, s1)")
    with assms loop Next have res: "P' = P2" "st' = sampler_start s2"
      by (simp_all add: process_samples_def)
    from ad Next r
    have "solo E (Suc (Suc 0)) (P1, \<lparr>wstate = s1, wpc = pc_after f, wrecords = rest\<rparr>)
            = Inr (P2, \<lparr>wstate = sampler_start s2, wpc = Left, wrecords = []\<rparr>)"
      by (simp add: worker_step_def pc_after_def add_delays_split)
    with n solo_add [of E n "Suc (Suc 0)" "(P, enter rs st)"]
    have sn: "solo E (n + Suc (Suc 0)) (P, enter rs st)
            = Inr (P2, \<lparr>wstate = sampler_start s2, wpc = Left, wrecords = []\<rparr>)"
      by (simp del: solo.simps add_Suc_right)
    have "interleave E (replicate (n + Suc (Suc 0)) t) (P, ws(t := enter rs st))
            = Inr (P2, ws(t := \<lparr>wstate = sampler_start s2, wpc = Left, wrecords = []\<rparr>))"
      unfolding interleave_replicate using sn by (simp del: solo.simps add_Suc_right)
    with res show ?thesis by fastforce
  qed
qed

text \<open>Runs of samples inside a round.\<close>

lemma not_final:
  fixes x M :: "64 word"
  assumes "unat x + Suc k < unat M"
  shows "x + 1 \<noteq> M" and "unat (x + 1) + k < unat M"
proof -
  have "unat M < 2 ^ 64" using unsigned_less [of M] by simp
  with assms have "unat x + 1 < 2 ^ 64" by simp
  then have u: "unat (x + 1) = unat x + 1"
    by (simp add: unat_word_ariths)
  with assms show "unat (x + 1) + k < unat M" by simp
  from u assms show "x + 1 \<noteq> M" by auto
qed

lemma is_final:
  fixes x M :: "64 word"
  assumes "unat x + 1 = unat M"
  shows "x + 1 = M"
proof -
  have "unat M < 2 ^ 64" using unsigned_less [of M] by simp
  with assms have "unat x + 1 < 2 ^ 64" by simp
  then have u: "unat (x + 1) = unat x + 1"
    by (simp add: unat_word_ariths)
  with assms have "unat (x + 1) = unat M" by simp
  then show ?thesis by (rule unsigned_word_eqI)
qed

lemma solo_one_sample:
  assumes "selected_line P = Some c" and "find_containing_line E (Sample a cc) = Some l"
    and "round_samples P + 1 \<noteq> MinRoundSamples E"
  shows "solo E (Suc (Suc 0)) (P, \<lparr>wstate = st, wpc = Loop_head, wrecords = Sample a cc # rest\<rparr>)
     = Inr (P\<lparr>line_samples := l # line_samples P, round_samples := round_samples P + 1\<rparr>,
            \<lparr>wstate = st\<lparr>delay_count := delay_count st + (if l = c then 1 else 0)\<rparr>,
              wpc = Loop_head, wrecords = rest\<rparr>)"
proof -
  have ws: "worker_step E (P, \<lparr>wstate = st, wpc = Loop_head, wrecords = Sample a cc # rest\<rparr>)
     = Inr (P\<lparr>line_samples := l # line_samples P\<rparr>,
            \<lparr>wstate = st, wpc = Have_line (Some l) (Some c), wrecords = rest\<rparr>)"
    using assms(1)
    by (simp add: worker_step_sample [OF _ assms(2) refl] add_sample_def)
  have ws2: "worker_step E (P\<lparr>line_samples := l # line_samples P\<rparr>,
            \<lparr>wstate = st, wpc = Have_line (Some l) (Some c), wrecords = rest\<rparr>)
     = Inr (P\<lparr>line_samples := l # line_samples P, round_samples := round_samples P + 1\<rparr>,
            \<lparr>wstate = st\<lparr>delay_count := delay_count st + (if l = c then 1 else 0)\<rparr>,
              wpc = Loop_head, wrecords = rest\<rparr>)"
    using assms(3) by (simp add: worker_step_def Let_def)
  show ?thesis
    by (simp add: ws ws2)
qed

lemma solo_count_run:
  assumes "selected_line P = Some c" and "find_containing_line E (Sample a cc) = Some l"
    and "unat (round_samples P) + k < unat (MinRoundSamples E)"
  shows "solo E (2 * k)
       (P, \<lparr>wstate = st, wpc = Loop_head, wrecords = replicate k (Sample a cc) @ rest\<rparr>)
     = Inr (P\<lparr>line_samples := replicate k l @ line_samples P,
              round_samples := round_samples P + of_nat k\<rparr>,
            \<lparr>wstate = st\<lparr>delay_count := delay_count st + (if l = c then of_nat k else 0)\<rparr>,
              wpc = Loop_head, wrecords = rest\<rparr>)"
  using assms(1,3)
proof (induction k arbitrary: P st)
  case 0
  have "P\<lparr>line_samples := line_samples P, round_samples := round_samples P\<rparr> = P"
    by simp
  moreover have "st\<lparr>delay_count := delay_count st\<rparr> = st" by simp
  ultimately show ?case by simp
next
  case (Suc k)
  let ?P1 = "P\<lparr>line_samples := l # line_samples P, round_samples := round_samples P + 1\<rparr>"
  let ?s1 = "st\<lparr>delay_count := delay_count st + (if l = c then 1 else 0)\<rparr>"
  from not_final [OF Suc.prems(2)] have nf: "round_samples P + 1 \<noteq> MinRoundSamples E"
    and b: "unat (round_samples P + 1) + k < unat (MinRoundSamples E)" by simp_all
  have one: "solo E (Suc (Suc 0))
       (P, \<lparr>wstate = st, wpc = Loop_head,
            wrecords = Sample a cc # (replicate k (Sample a cc) @ rest)\<rparr>)
     = Inr (?P1, \<lparr>wstate = ?s1, wpc = Loop_head, wrecords = replicate k (Sample a cc) @ rest\<rparr>)"
    by (rule solo_one_sample [OF Suc.prems(1) assms(2) nf])
  have sel1: "selected_line ?P1 = Some c" using Suc.prems(1) by simp
  have b1: "unat (round_samples ?P1) + k < unat (MinRoundSamples E)" using b by simp
  note ih = Suc.IH [OF sel1 b1, of ?s1]
  have "solo E (2 * Suc k)
       (P, \<lparr>wstate = st, wpc = Loop_head, wrecords = replicate (Suc k) (Sample a cc) @ rest\<rparr>)
     = solo E (Suc (Suc 0) + 2 * k)
       (P, \<lparr>wstate = st, wpc = Loop_head,
            wrecords = Sample a cc # (replicate k (Sample a cc) @ rest)\<rparr>)"
    by simp
  also have "\<dots> = solo E (2 * k)
       (?P1, \<lparr>wstate = ?s1, wpc = Loop_head, wrecords = replicate k (Sample a cc) @ rest\<rparr>)"
    unfolding solo_add one by simp
  also note ih
  finally show ?case
    by (simp add: replicate_app_Cons_same algebra_simps)
qed


lemma solo_final_sample:
  assumes "selected_line P = Some c" and "find_containing_line E (Sample a cc) = Some l"
    and "round_samples P + 1 = MinRoundSamples E" and "out P = Output es"
  shows "solo E (Suc (Suc 0)) (P, \<lparr>wstate = st, wpc = Loop_head, wrecords = Sample a cc # rest\<rparr>)
     = Inr (P\<lparr>line_samples := l # line_samples P, round_samples := round_samples P + 1,
              out := Output (es @ [Ev_end_round (global_delays P - round_start_delays P)
                                     (delay_size P)])\<rparr>,
            \<lparr>wstate = st\<lparr>delay_count := delay_count st + (if l = c then 1 else 0)\<rparr>,
              wpc = Final_sample, wrecords = rest\<rparr>)"
proof -
  have ws: "worker_step E (P, \<lparr>wstate = st, wpc = Loop_head, wrecords = Sample a cc # rest\<rparr>)
     = Inr (P\<lparr>line_samples := l # line_samples P\<rparr>,
            \<lparr>wstate = st, wpc = Have_line (Some l) (Some c), wrecords = rest\<rparr>)"
    using assms(1)
    by (simp add: worker_step_sample [OF _ assms(2) refl] add_sample_def)
  have ws2: "worker_step E (P\<lparr>line_samples := l # line_samples P\<rparr>,
            \<lparr>wstate = st, wpc = Have_line (Some l) (Some c), wrecords = rest\<rparr>)
     = Inr (P\<lparr>line_samples := l # line_samples P, round_samples := round_samples P + 1,
              out := Output (es @ [Ev_end_round (global_delays P - round_start_delays P)
                                     (delay_size P)])\<rparr>,
            \<lparr>wstate = st\<lparr>delay_count := delay_count st + (if l = c then 1 else 0)\<rparr>,
              wpc = Final_sample, wrecords = rest\<rparr>)"
    using assms(3,4) by (simp add: worker_step_def emit_def Let_def)
  show ?thesis
    by (simp add: ws ws2)
qed

text \<open>The last \<open>k + 1\<close> samples of a round, up to the call of \<^verbatim>\<open>end_round\<close>.\<close>

lemma solo_round_tail:
  assumes "selected_line P = Some c" and "find_containing_line E (Sample a cc) = Some l"
    and "unat (round_samples P) + Suc k = unat (MinRoundSamples E)" and "out P = Output es"
  shows "solo E (2 * k + 2)
       (P, \<lparr>wstate = st, wpc = Loop_head, wrecords = replicate (Suc k) (Sample a cc) @ rest\<rparr>)
     = Inr (P\<lparr>line_samples := replicate (Suc k) l @ line_samples P,
              round_samples := MinRoundSamples E,
              out := Output (es @ [Ev_end_round (global_delays P - round_start_delays P)
                                     (delay_size P)])\<rparr>,
            \<lparr>wstate = st\<lparr>delay_count := delay_count st + (if l = c then of_nat (Suc k) else 0)\<rparr>,
              wpc = Final_sample, wrecords = rest\<rparr>)"
proof -
  let ?P1 = "P\<lparr>line_samples := replicate k l @ line_samples P,
              round_samples := round_samples P + of_nat k\<rparr>"
  let ?s1 = "st\<lparr>delay_count := delay_count st + (if l = c then of_nat k else 0)\<rparr>"
  from assms(3) have lt: "unat (round_samples P) + k < unat (MinRoundSamples E)" by simp
  have "unat (MinRoundSamples E) < 2 ^ 64" using unsigned_less [of "MinRoundSamples E"] by simp
  with assms(3) have "unat (round_samples P) + k < 2 ^ 64" by simp
  then have "unat (round_samples P + of_nat k) = unat (round_samples P) + k"
    by (simp add: unat_word_ariths unat_of_nat)
  with assms(3) have "unat (round_samples ?P1) + 1 = unat (MinRoundSamples E)" by simp
  then have fin: "round_samples ?P1 + 1 = MinRoundSamples E" by (rule is_final)
  have run: "solo E (2 * k)
       (P, \<lparr>wstate = st, wpc = Loop_head,
            wrecords = replicate k (Sample a cc) @ (Sample a cc # rest)\<rparr>)
     = Inr (?P1, \<lparr>wstate = ?s1, wpc = Loop_head, wrecords = Sample a cc # rest\<rparr>)"
    by (rule solo_count_run [OF assms(1,2) lt])
  have last: "solo E (Suc (Suc 0)) (?P1, \<lparr>wstate = ?s1, wpc = Loop_head, wrecords = Sample a cc # rest\<rparr>)
     = Inr (?P1\<lparr>line_samples := l # line_samples ?P1, round_samples := round_samples ?P1 + 1,
              out := Output (es @ [Ev_end_round (global_delays ?P1 - round_start_delays ?P1)
                                     (delay_size ?P1)])\<rparr>,
            \<lparr>wstate = ?s1\<lparr>delay_count := delay_count ?s1 + (if l = c then 1 else 0)\<rparr>,
              wpc = Final_sample, wrecords = rest\<rparr>)"
    by (rule solo_final_sample [OF _ assms(2) fin]) (simp_all add: assms(1,4))
  have "solo E (2 * k + 2)
       (P, \<lparr>wstate = st, wpc = Loop_head, wrecords = replicate (Suc k) (Sample a cc) @ rest\<rparr>)
     = solo E (2 * k + Suc (Suc 0))
       (P, \<lparr>wstate = st, wpc = Loop_head,
            wrecords = replicate k (Sample a cc) @ (Sample a cc # rest)\<rparr>)"
    by (simp add: replicate_app_Cons_same)
  also have "\<dots> = solo E (Suc (Suc 0))
       (?P1, \<lparr>wstate = ?s1, wpc = Loop_head, wrecords = Sample a cc # rest\<rparr>)"
    unfolding solo_add run by simp
  also note last
  finally show ?thesis
    using fin by (simp add: replicate_app_Cons_same algebra_simps)
qed


lemma interleave_append:
  "interleave E (xs @ ys) C =
     (case interleave E xs C of Inl e \<Rightarrow> Inl e | Inr C1 \<Rightarrow> interleave E ys C1)"
  by (induction xs arbitrary: C) (auto split: sum.splits)

lemmas fresh_defs = fresh_profiler_def initial_profiler_def fresh_thread_def initial_thread_def

lemma solo_then:
  "solo E m C = Inr C1 \<Longrightarrow> solo E n C1 = R \<Longrightarrow> solo E (m + n) C = R"
  by (simp add: solo_add)

lemma solo_step: "worker_step E C = R \<Longrightarrow> solo E (Suc 0) C = R"
  by (cases R) simp_all

lemma race_env_n_simps:
  "find_containing_line (race_env_n m) (Sample 1 []) = Some 7"
  "find_containing_line (race_env_n m) (Sample 2 []) = Some 8"
  "delay_dist (race_env_n m) k * SamplePeriod (race_env_n m) div SpeedupDivisions (race_env_n m)
     = 500000"
  "MinRoundSamples (race_env_n m) = of_nat m"
  "find_line_ip (race_env_n m) = (\<lambda>a. if a = 1 then Some 7 else if a = 2 then Some 8 else None)"
  by (simp_all add: race_env_n_def race_env_def example_env_def)

lemma race_y_first_round:
  assumes "m = Suc (Suc j)" and "m < 2 ^ 64"
  shows "solo (race_env_n m) (2 * m + 1)
      (fresh_profiler\<lparr>line_samples := [7], selected_line := Some 7\<rparr>,
       \<lparr>wstate = sampler_stop fresh_thread, wpc = Loop_head,
        wrecords = replicate m (Sample 2 []) @ rest\<rparr>)
    = Inr (fresh_profiler\<lparr>line_samples := replicate m 8 @ [7], round_samples := of_nat m,
             out := Output [Ev_startup 1000000, Ev_end_round 0 0]\<rparr>,
           \<lparr>wstate = sampler_stop fresh_thread, wpc = Loop_head, wrecords = rest\<rparr>)"
proof -
  let ?E = "race_env_n m"
  let ?P = "fresh_profiler\<lparr>line_samples := [7], selected_line := Some 7\<rparr>"
  let ?P1 = "fresh_profiler\<lparr>line_samples := replicate m 8 @ [7], round_samples := of_nat m,
             out := Output [Ev_startup 1000000, Ev_end_round 0 0], selected_line := Some 7\<rparr>"
  have M: "unat (MinRoundSamples ?E) = m"
    using assms(2) by (simp add: race_env_n_def unat_of_nat)
  have "solo ?E (2 * Suc j + 2)
       (?P, \<lparr>wstate = sampler_stop fresh_thread, wpc = Loop_head,
             wrecords = replicate (Suc (Suc j)) (Sample 2 []) @ rest\<rparr>)
     = Inr (?P\<lparr>line_samples := replicate (Suc (Suc j)) 8 @ line_samples ?P,
              round_samples := MinRoundSamples ?E,
              out := Output ([Ev_startup 1000000] @
                       [Ev_end_round (global_delays ?P - round_start_delays ?P) (delay_size ?P)])\<rparr>,
            \<lparr>wstate = (sampler_stop fresh_thread)\<lparr>delay_count :=
                 delay_count (sampler_stop fresh_thread)
                   + (if (8::nat) = 7 then of_nat (Suc (Suc j)) else 0)\<rparr>,
              wpc = Final_sample, wrecords = rest\<rparr>)"
    by (rule solo_round_tail [OF _ race_env_n_simps(2)])
      (simp_all add: M assms(1) [symmetric] fresh_defs)
  then have tail: "solo ?E (2 * Suc j + 2)
       (?P, \<lparr>wstate = sampler_stop fresh_thread, wpc = Loop_head,
             wrecords = replicate m (Sample 2 []) @ rest\<rparr>)
     = Inr (?P1, \<lparr>wstate = sampler_stop fresh_thread, wpc = Final_sample, wrecords = rest\<rparr>)"
    by (simp del: solo.simps add: race_env_n_simps assms(1) fresh_defs sampler_stop_def)
  have clear: "worker_step ?E
       (?P1, \<lparr>wstate = sampler_stop fresh_thread, wpc = Final_sample, wrecords = rest\<rparr>)
     = Inr (fresh_profiler\<lparr>line_samples := replicate m 8 @ [7], round_samples := of_nat m,
             out := Output [Ev_startup 1000000, Ev_end_round 0 0]\<rparr>,
           \<lparr>wstate = sampler_stop fresh_thread, wpc = Loop_head, wrecords = rest\<rparr>)"
    by (simp add: worker_step_def fresh_defs)
  have n: "2 * Suc j + 2 + Suc 0 = 2 * m + 1" by (simp add: assms(1))
  from solo_then [OF tail solo_step [OF clear]] show ?thesis
    unfolding n .
qed

text \<open>Thread 1 opens the round of line 8 and counts its samples up to the call of
  \<^verbatim>\<open>end_round\<close>.\<close>

lemma race_y_second_round:
  assumes "m = Suc (Suc j)" and "m < 2 ^ 64"
  shows "solo (race_env_n m) (2 * m + 1)
      (fresh_profiler\<lparr>line_samples := replicate m 8 @ [7], round_samples := of_nat m,
             out := Output [Ev_startup 1000000, Ev_end_round 0 0]\<rparr>,
       \<lparr>wstate = sampler_stop fresh_thread, wpc = Loop_head,
        wrecords = replicate m (Sample 2 [])\<rparr>)
    = Inr (fresh_profiler\<lparr>line_samples := replicate (2 * m) 8 @ [7],
             round_samples := of_nat m, selected_line := Some 8, delay_size := 500000,
             generator := 1,
             out := Output [Ev_startup 1000000, Ev_end_round 0 0, Ev_start_round 8,
                            Ev_end_round 0 500000]\<rparr>,
           \<lparr>wstate = (sampler_stop fresh_thread)\<lparr>delay_count := of_nat m\<rparr>,
            wpc = Final_sample, wrecords = []\<rparr>)"
proof -
  let ?E = "race_env_n m"
  let ?P = "fresh_profiler\<lparr>line_samples := replicate m 8 @ [7], round_samples := of_nat m,
             out := Output [Ev_startup 1000000, Ev_end_round 0 0]\<rparr>"
  let ?P1 = "fresh_profiler\<lparr>line_samples := 8 # replicate m 8 @ [7], round_samples := 1,
             selected_line := Some 8, delay_size := 500000, generator := 1,
             out := Output [Ev_startup 1000000, Ev_end_round 0 0, Ev_start_round 8]\<rparr>"
  let ?w1 = "\<lparr>wstate = (sampler_stop fresh_thread)\<lparr>delay_count := 1\<rparr>, wpc = Loop_head,
             wrecords = replicate (Suc j) (Sample 2 [])\<rparr>"
  have M: "unat (MinRoundSamples ?E) = m"
    using assms(2) by (simp add: race_env_n_def unat_of_nat)
  have "(1 :: 64 word) \<noteq> MinRoundSamples ?E"
  proof
    assume "1 = MinRoundSamples ?E"
    then have "unat (1 :: 64 word) = unat (MinRoundSamples ?E)" by simp
    with M assms(1) show False by simp
  qed
  then have ne: "(1 :: 64 word) \<noteq> of_nat m" by (simp add: race_env_n_simps)
  have first: "solo ?E (Suc (Suc (Suc 0)))
      (?P, \<lparr>wstate = sampler_stop fresh_thread, wpc = Loop_head,
        wrecords = replicate m (Sample 2 [])\<rparr>) = Inr (?P1, ?w1)"
    using ne
    by (simp add: assms(1) worker_step_def race_env_n_simps compare_exchange_strong_def
        start_round_def emit_def add_sample_def fresh_defs sampler_stop_def Let_def)
  have "solo ?E (2 * j + 2)
       (?P1, \<lparr>wstate = (sampler_stop fresh_thread)\<lparr>delay_count := 1\<rparr>, wpc = Loop_head,
             wrecords = replicate (Suc j) (Sample 2 []) @ []\<rparr>)
     = Inr (?P1\<lparr>line_samples := replicate (Suc j) 8 @ line_samples ?P1,
              round_samples := MinRoundSamples ?E,
              out := Output ([Ev_startup 1000000, Ev_end_round 0 0, Ev_start_round 8] @
                       [Ev_end_round (global_delays ?P1 - round_start_delays ?P1) (delay_size ?P1)])\<rparr>,
            \<lparr>wstate = ((sampler_stop fresh_thread)\<lparr>delay_count := 1\<rparr>)\<lparr>delay_count :=
                 delay_count ((sampler_stop fresh_thread)\<lparr>delay_count := 1\<rparr>)
                   + (if (8::nat) = 8 then of_nat (Suc j) else 0)\<rparr>,
              wpc = Final_sample, wrecords = []\<rparr>)"
    by (rule solo_round_tail [OF _ race_env_n_simps(2)])
      (simp_all add: M [unfolded assms(1)] assms(1) fresh_defs)
  then have tail: "solo ?E (2 * j + 2) (?P1, ?w1)
     = Inr (fresh_profiler\<lparr>line_samples := replicate (2 * m) 8 @ [7],
             round_samples := of_nat m, selected_line := Some 8, delay_size := 500000,
             generator := 1,
             out := Output [Ev_startup 1000000, Ev_end_round 0 0, Ev_start_round 8,
                            Ev_end_round 0 500000]\<rparr>,
           \<lparr>wstate = (sampler_stop fresh_thread)\<lparr>delay_count := of_nat m\<rparr>,
            wpc = Final_sample, wrecords = []\<rparr>)"
    by (simp del: solo.simps
        add: race_env_n_simps assms(1) fresh_defs sampler_stop_def replicate_app_Cons_same
          replicate_add [symmetric])
  have n: "Suc (Suc (Suc 0)) + (2 * j + 2) = 2 * m + 1" by (simp add: assms(1))
  from solo_then [OF first tail] show ?thesis
    unfolding n .
qed


text \<open>Thread 0 resumes after its exchange: it resets the counter in the round of line 8
  and counts its own samples up to the call of \<^verbatim>\<open>end_round\<close>.\<close>

lemma race_x_resumes:
  assumes "m = Suc (Suc j)" and "m < 2 ^ 64"
  shows "solo (race_env_n m) (2 * m)
      (fresh_profiler\<lparr>line_samples := replicate (2 * m) 8 @ [7],
             round_samples := of_nat m, selected_line := Some 8, delay_size := 500000,
             generator := 1,
             out := Output [Ev_startup 1000000, Ev_end_round 0 0, Ev_start_round 8,
                            Ev_end_round 0 500000]\<rparr>,
       \<lparr>wstate = sampler_stop fresh_thread, wpc = Won_exchange 7,
        wrecords = replicate (Suc j) (Sample 1 [])\<rparr>)
    = Inr (fresh_profiler\<lparr>line_samples := replicate (Suc j) 7 @ replicate (2 * m) 8 @ [7],
             round_samples := of_nat m, selected_line := Some 8, delay_size := 500000,
             generator := 2,
             out := Output [Ev_startup 1000000, Ev_end_round 0 0, Ev_start_round 8,
                            Ev_end_round 0 500000, Ev_start_round 7, Ev_end_round 0 500000]\<rparr>,
           \<lparr>wstate = (sampler_stop fresh_thread)\<lparr>delay_count := 1\<rparr>,
            wpc = Final_sample, wrecords = []\<rparr>)"
proof -
  let ?E = "race_env_n m"
  let ?P = "fresh_profiler\<lparr>line_samples := replicate (2 * m) 8 @ [7],
             round_samples := of_nat m, selected_line := Some 8, delay_size := 500000,
             generator := 1,
             out := Output [Ev_startup 1000000, Ev_end_round 0 0, Ev_start_round 8,
                            Ev_end_round 0 500000]\<rparr>"
  let ?P1 = "fresh_profiler\<lparr>line_samples := replicate (2 * m) 8 @ [7],
             round_samples := 1, selected_line := Some 8, delay_size := 500000,
             generator := 2,
             out := Output [Ev_startup 1000000, Ev_end_round 0 0, Ev_start_round 8,
                            Ev_end_round 0 500000, Ev_start_round 7]\<rparr>"
  let ?w1 = "\<lparr>wstate = (sampler_stop fresh_thread)\<lparr>delay_count := 1\<rparr>, wpc = Loop_head,
             wrecords = replicate (Suc j) (Sample 1 [])\<rparr>"
  have M: "unat (MinRoundSamples ?E) = m"
    using assms(2) by (simp add: race_env_n_def unat_of_nat)
  have "(1 :: 64 word) \<noteq> MinRoundSamples ?E"
  proof
    assume "1 = MinRoundSamples ?E"
    then have "unat (1 :: 64 word) = unat (MinRoundSamples ?E)" by simp
    with M assms(1) show False by simp
  qed
  then have ne: "(1 :: 64 word) \<noteq> of_nat m" by (simp add: race_env_n_simps)
  have first: "solo ?E (Suc (Suc 0))
      (?P, \<lparr>wstate = sampler_stop fresh_thread, wpc = Won_exchange 7,
        wrecords = replicate (Suc j) (Sample 1 [])\<rparr>) = Inr (?P1, ?w1)"
    using ne
    by (simp add: worker_step_def race_env_n_simps start_round_def emit_def fresh_defs
        sampler_stop_def Let_def)
  have "solo ?E (2 * j + 2)
       (?P1, \<lparr>wstate = (sampler_stop fresh_thread)\<lparr>delay_count := 1\<rparr>, wpc = Loop_head,
             wrecords = replicate (Suc j) (Sample 1 []) @ []\<rparr>)
     = Inr (?P1\<lparr>line_samples := replicate (Suc j) 7 @ line_samples ?P1,
              round_samples := MinRoundSamples ?E,
              out := Output ([Ev_startup 1000000, Ev_end_round 0 0, Ev_start_round 8,
                              Ev_end_round 0 500000, Ev_start_round 7] @
                       [Ev_end_round (global_delays ?P1 - round_start_delays ?P1) (delay_size ?P1)])\<rparr>,
            \<lparr>wstate = ((sampler_stop fresh_thread)\<lparr>delay_count := 1\<rparr>)\<lparr>delay_count :=
                 delay_count ((sampler_stop fresh_thread)\<lparr>delay_count := 1\<rparr>)
                   + (if (7::nat) = 8 then of_nat (Suc j) else 0)\<rparr>,
              wpc = Final_sample, wrecords = []\<rparr>)"
    by (rule solo_round_tail [OF _ race_env_n_simps(1)])
      (simp_all add: M [unfolded assms(1)] assms(1) fresh_defs)
  then have tail: "solo ?E (2 * j + 2) (?P1, ?w1)
     = Inr (fresh_profiler\<lparr>line_samples := replicate (Suc j) 7 @ replicate (2 * m) 8 @ [7],
             round_samples := of_nat m, selected_line := Some 8, delay_size := 500000,
             generator := 2,
             out := Output [Ev_startup 1000000, Ev_end_round 0 0, Ev_start_round 8,
                            Ev_end_round 0 500000, Ev_start_round 7, Ev_end_round 0 500000]\<rparr>,
           \<lparr>wstate = (sampler_stop fresh_thread)\<lparr>delay_count := 1\<rparr>,
            wpc = Final_sample, wrecords = []\<rparr>)"
    by (simp del: solo.simps add: race_env_n_simps assms(1) fresh_defs sampler_stop_def)
  have n: "Suc (Suc 0) + (2 * j + 2) = 2 * m" by (simp add: assms(1))
  from solo_then [OF first tail] show ?thesis
    unfolding n .
qed

lemma interleave_then:
  "interleave E xs C = Inr C1 \<Longrightarrow> interleave E ys C1 = R \<Longrightarrow> interleave E (xs @ ys) C = R"
  by (simp add: interleave_append)

lemma interleave_solo:
  "solo E n (P, ws t) = Inr (P', w') \<Longrightarrow>
     interleave E (replicate n t) (P, ws) = Inr (P', ws(t := w'))"
  by (simp add: interleave_replicate)

lemmas race_defs = worker_step_def enter_def race_env_def race_workers_def race_schedule_def

text \<open>
  C3 says that in every round exactly one thread performs the end-round transition.
  With rounds of two samples, thread 0 wins the exchange for line 7 and is held up
  before line 310. Thread 1 counts two samples, ends that round, opens the next round on
  line 8 and counts its two samples, calls \<^verbatim>\<open>end_round\<close> and is held up before line 350.
  Thread 0 resumes at line 310 and sets \<open>round_samples\<close> back to 0 in the round of line 8;
  its own two samples bring the counter to \<open>MinRoundSamples\<close> again and it calls
  \<^verbatim>\<open>end_round\<close> too. \<open>selected_line\<close> has been line 8 since thread 1 installed it
  (after step 7), and both threads stand between line 347 and line 350: the round of
  line 8 has two \<^verbatim>\<open>end_round\<close> events, from two threads.
\<close>

theorem two_threads_end_one_round:
  "\<exists>P ws. interleave race_env race_schedule (fresh_profiler, race_workers) = Inr (P, ws)
     \<and> wpc (ws 0) = Final_sample \<and> wpc (ws 1) = Final_sample
     \<and> selected_line P = Some 8
     \<and> round_samples P = MinRoundSamples race_env
     \<and> out P = Output [Ev_startup 1000000, Ev_end_round 0 0, Ev_start_round 8,
                        Ev_end_round 0 500000, Ev_start_round 7, Ev_end_round 0 500000]
     \<and> selected_history race_env race_schedule (fresh_profiler, race_workers)
         = [None, Some 7, Some 7, Some 7, Some 7, Some 7, None, Some 8, Some 8, Some 8,
            Some 8, Some 8, Some 8, Some 8, Some 8, Some 8]"
  by (simp add: race_defs model_defs example_defs)

text \<open>
  The race for rounds of any length \<open>m \<ge> 2\<close>: thread 0 holds \<open>m\<close> samples on line 7,
  thread 1 holds \<open>2 * m\<close> samples on line 8, and the schedule is one step of thread 0,
  \<open>4 * m + 2\<close> steps of thread 1, and \<open>2 * m\<close> steps of thread 0.
\<close>

lemma race_for_any_round_length:
  assumes "2 \<le> m" and "m < 2 ^ 64"
  shows "\<exists>P ws. interleave (race_env_n m) (race_schedule_n m) (fresh_profiler, race_workers_n m)
             = Inr (P, ws)
     \<and> wpc (ws 0) = Final_sample \<and> wpc (ws 1) = Final_sample
     \<and> selected_line P = Some 8
     \<and> round_samples P = MinRoundSamples (race_env_n m)
     \<and> out P = Output [Ev_startup 1000000, Ev_end_round 0 0, Ev_start_round 8,
                        Ev_end_round 0 500000, Ev_start_round 7, Ev_end_round 0 500000]"
proof -
  define j where "j = m - 2"
  have m: "m = Suc (Suc j)"
    using assms(1) by (simp add: j_def)
  define E where "E = race_env_n m"
  define W where "W = race_workers_n m"
  define PA where "PA = fresh_profiler\<lparr>line_samples := [7], selected_line := Some 7\<rparr>"
  define XA where "XA = \<lparr>wstate = sampler_stop fresh_thread, wpc = Won_exchange 7,
              wrecords = replicate (Suc j) (Sample 1 [])\<rparr>"
  define PB where "PB = fresh_profiler\<lparr>line_samples := replicate m 8 @ [7],
             round_samples := of_nat m,
             out := Output [Ev_startup 1000000, Ev_end_round 0 0]\<rparr>"
  define YB where "YB = \<lparr>wstate = sampler_stop fresh_thread, wpc = Loop_head,
        wrecords = replicate m (Sample 2 [])\<rparr>"
  define PC where "PC = fresh_profiler\<lparr>line_samples := replicate (2 * m) 8 @ [7],
             round_samples := of_nat m, selected_line := Some 8, delay_size := 500000,
             generator := 1,
             out := Output [Ev_startup 1000000, Ev_end_round 0 0, Ev_start_round 8,
                            Ev_end_round 0 500000]\<rparr>"
  define YC where "YC = \<lparr>wstate = (sampler_stop fresh_thread)\<lparr>delay_count := of_nat m\<rparr>,
            wpc = Final_sample, wrecords = []\<rparr>"
  define PD where "PD = fresh_profiler\<lparr>line_samples := replicate (Suc j) 7 @ replicate (2 * m) 8 @ [7],
             round_samples := of_nat m, selected_line := Some 8, delay_size := 500000,
             generator := 2,
             out := Output [Ev_startup 1000000, Ev_end_round 0 0, Ev_start_round 8,
                            Ev_end_round 0 500000, Ev_start_round 7, Ev_end_round 0 500000]\<rparr>"
  define XD where "XD = \<lparr>wstate = (sampler_stop fresh_thread)\<lparr>delay_count := 1\<rparr>,
            wpc = Final_sample, wrecords = []\<rparr>"
  have w0: "W 0 = \<lparr>wstate = sampler_stop fresh_thread, wpc = Loop_head,
              wrecords = Sample 1 [] # replicate (Suc j) (Sample 1 [])\<rparr>"
    by (simp add: W_def race_workers_n_def enter_def m)
  have r2: "replicate (2 * m) (Sample 2 []) = replicate m (Sample 2 []) @ replicate m (Sample 2 [])"
    unfolding mult_2 by (rule replicate_add)
  have w1: "W 1 = \<lparr>wstate = sampler_stop fresh_thread, wpc = Loop_head,
              wrecords = replicate m (Sample 2 []) @ replicate m (Sample 2 [])\<rparr>"
    unfolding r2 [symmetric] by (simp add: W_def race_workers_n_def enter_def)
  have x: "worker_step E (fresh_profiler, W 0) = Inr (PA, XA)"
    unfolding w0 PA_def XA_def E_def
    by (simp add: worker_step_def race_env_n_simps compare_exchange_strong_def add_sample_def
        fresh_defs Let_def)
  have y1: "solo E (2 * m + 1) (PA, W 1) = Inr (PB, YB)"
    unfolding w1 PA_def PB_def YB_def E_def
    by (rule race_y_first_round [OF m assms(2)])
  have y2: "solo E (2 * m + 1) (PB, YB) = Inr (PC, YC)"
    unfolding PB_def YB_def PC_def YC_def E_def
    by (rule race_y_second_round [OF m assms(2)])
  have x2: "solo E (2 * m) (PC, XA) = Inr (PD, XD)"
    unfolding PC_def XA_def PD_def XD_def E_def
    by (rule race_x_resumes [OF m assms(2)])
  have i1: "interleave E [0] (fresh_profiler, W) = Inr (PA, W(0 := XA))"
    using x by simp
  have "(W(0 := XA)) 1 = W 1" by simp
  with y1 have "solo E (2 * m + 1) (PA, (W(0 := XA)) 1) = Inr (PB, YB)"
    by (simp only:)
  then have i2: "interleave E (replicate (2 * m + 1) 1) (PA, W(0 := XA))
      = Inr (PB, W(0 := XA, 1 := YB))"
    by (rule interleave_solo)
  have "(W(0 := XA, 1 := YB)) 1 = YB" by simp
  with y2 have "solo E (2 * m + 1) (PB, (W(0 := XA, 1 := YB)) 1) = Inr (PC, YC)"
    by (simp only:)
  then have i3: "interleave E (replicate (2 * m + 1) 1) (PB, W(0 := XA, 1 := YB))
      = Inr (PC, W(0 := XA, 1 := YB, 1 := YC))"
    by (rule interleave_solo)
  have "(W(0 := XA, 1 := YB, 1 := YC)) 0 = XA" by simp
  with x2 have "solo E (2 * m) (PC, (W(0 := XA, 1 := YB, 1 := YC)) 0) = Inr (PD, XD)"
    by (simp only:)
  then have i4: "interleave E (replicate (2 * m) 0) (PC, W(0 := XA, 1 := YB, 1 := YC))
      = Inr (PD, W(0 := XA, 1 := YB, 1 := YC, 0 := XD))"
    by (rule interleave_solo)
  have sched: "race_schedule_n m
      = [0] @ replicate (2 * m + 1) 1 @ replicate (2 * m + 1) 1 @ replicate (2 * m) 0"
  proof -
    have "4 * m + 2 = (2 * m + 1) + (2 * m + 1)" by simp
    then have "replicate (4 * m + 2) (1 :: nat)
        = replicate (2 * m + 1) 1 @ replicate (2 * m + 1) 1"
      by (simp only: replicate_add)
    then show ?thesis
      by (simp only: race_schedule_n_def append_Cons append_Nil append_assoc)
  qed
  have run: "interleave E (race_schedule_n m) (fresh_profiler, W)
      = Inr (PD, W(0 := XA, 1 := YB, 1 := YC, 0 := XD))"
    unfolding sched
    by (rule interleave_then [OF i1 interleave_then [OF i2 interleave_then [OF i3 i4]]])
  have pcs: "wpc ((W(0 := XA, 1 := YB, 1 := YC, 0 := XD)) 0) = Final_sample"
    "wpc ((W(0 := XA, 1 := YB, 1 := YC, 0 := XD)) 1) = Final_sample"
    by (simp_all add: XD_def YC_def)
  have fin: "selected_line PD = Some 8" "round_samples PD = MinRoundSamples E"
    "out PD = Output [Ev_startup 1000000, Ev_end_round 0 0, Ev_start_round 8,
                        Ev_end_round 0 500000, Ev_start_round 7, Ev_end_round 0 500000]"
    by (simp_all add: PD_def E_def race_env_n_simps)
  from run pcs fin show ?thesis
    unfolding E_def W_def by (intro exI conjI)
qed

subsection \<open>The delay counter while threads run at the same time\<close>

text \<open>
  The only write to \<^verbatim>\<open>_global_delays\<close> is the \<^verbatim>\<open>+=\<close> of line 372. It adds the difference
  between the delay count of the thread and the value \<open>g\<close> that the thread read at line
  366, whatever the counter has become since.
\<close>

lemma add_delays_from_global:
  "add_delays_from E g d (P, state) = (P', state') \<Longrightarrow>
     global_delays P' = global_delays P + owed state g"
  by (auto simp: add_delays_from_def owed_def Let_def split: if_splits)

lemma worker_step_global:
  assumes "worker_step E (P, w) = Inr (P', w')"
  shows "global_delays P' = global_delays P +
           (case wpc w of Loaded_delays g d \<Rightarrow> owed (wstate w) g | _ \<Rightarrow> 0)"
proof (cases "wpc w")
  case Loop_head
  show ?thesis
  proof (cases "wrecords w")
    case Nil
    with assms Loop_head show ?thesis
      by (auto simp: worker_step_def)
  next
    case (Cons r rs)
    with assms Loop_head show ?thesis
      by (auto simp: worker_step_def compare_exchange_strong_def add_sample_def Let_def
          split: if_splits option.splits)
  qed
next
  case (Won_exchange x)
  with assms show ?thesis
    by (auto simp: worker_step_def keeps_session_def start_round_def emit_Inr Let_def
        split: sum.splits if_splits)
next
  case (Have_line l c)
  with assms show ?thesis
    by (auto simp: worker_step_def emit_Inr Let_def split: if_splits sum.splits)
next
  case Final_sample
  with assms show ?thesis
    by (auto simp: worker_step_def)
next
  case (Loaded_delays g d)
  with assms show ?thesis
    by (auto simp: worker_step_def split: prod.splits dest: add_delays_from_global)
next
  case Left
  with assms show ?thesis
    by (auto simp: worker_step_def)
qed

lemma begin_end_sampling_global:
  "begin_end_sampling t records after (P, ags) = Inr (P', ags') \<Longrightarrow>
     global_delays P' = global_delays P"
  by (auto simp: begin_end_sampling_def split: option.splits)

lemma begin_samples_ready_global:
  "begin_samples_ready t records after (P, ags) = Inr (P', ags') \<Longrightarrow>
     global_delays P' = global_delays P"
  by (auto simp: begin_samples_ready_def split: option.splits)

lemma begin_call_global:
  assumes "begin_call E t c (P, ags) = Inr (P', ags')"
  shows "global_delays P' = global_delays P"
proof (cases c)
  case (Startup names fl fs now)
  with assms show ?thesis
    by (auto simp: whole_call_def on_both_def split: sum.splits dest!: startup_keeps)
next
  case (Shutdown now records)
  with assms show ?thesis
    by (auto simp: test_and_set_def split: if_splits bool.splits dest!: begin_end_sampling_global)
next
  case (Pthread_create child fn arg)
  with assms show ?thesis
    by (auto simp: whole_call_def on_thread_def Let_def split: sum.splits)
next
  case (Pthread_exit records)
  with assms show ?thesis by (auto dest!: begin_end_sampling_global)
next
  case Snapshot_delays
  with assms show ?thesis by (auto simp: whole_call_def on_thread_def split: sum.splits)
next
  case Skip_delays
  with assms show ?thesis by (auto simp: whole_call_def on_thread_def split: sum.splits)
next
  case Catch_up
  with assms show ?thesis by (auto split: option.splits)
next
  case Begin_sampling
  with assms show ?thesis by (auto simp: whole_call_def on_thread_def split: sum.splits)
next
  case (End_sampling records)
  with assms show ?thesis by (auto dest!: begin_end_sampling_global)
next
  case (Samples_ready records)
  with assms show ?thesis by (auto dest!: begin_samples_ready_global)
qed

lemma fine_step_global:
  assumes "fine_step E t (P, ags) = Inr (P', ags')"
  shows "global_delays P' = global_delays P + pending_add (ags t)"
proof (cases "activity (ags t)")
  case Outside
  with assms show ?thesis by (auto simp: fine_step_def)
next
  case (In_process_samples p records who)
  show ?thesis
  proof (cases "p = Left")
    case True
    with assms In_process_samples show ?thesis
      by (auto simp: fine_step_def Let_def split: caller.splits)
  next
    case False
    with assms In_process_samples obtain w1 where
      "worker_step E (P, \<lparr>wstate = astate (ags t), wpc = p, wrecords = records\<rparr>) = Inr (P', w1)"
      by (auto simp: fine_step_def split: sum.splits)
    from worker_step_global [OF this] In_process_samples show ?thesis
      by (simp split: pc.splits)
  qed
next
  case (Loaded g d k)
  with assms show ?thesis
    by (auto simp: fine_step_def split: prod.splits cont.splits dest: add_delays_from_global)
next
  case (After_end_sampling now)
  with assms show ?thesis
    by (auto simp: fine_step_def emit_Inr report_end_to_end_def delete_out_def Let_def
        split: sum.splits)
qed

lemma fits_le:
  fixes g a :: "64 word"
  assumes "unat g + unat a < 2 ^ 64"
  shows "g \<le> g + a"
proof -
  from assms have "unat (g + a) = unat g + unat a"
    by (simp add: unat_word_ariths)
  then show ?thesis
    by (simp add: word_le_nat_alt)
qed

lemma fine_event_le:
  assumes "fine_event E (t, ev) C = Inr C1"
    and "case ev of Step \<Rightarrow> unat (global_delays (fst C)) + unat (pending_add (snd C t)) < 2 ^ 64
         | Begin c \<Rightarrow> True"
  shows "global_delays (fst C) \<le> global_delays (fst C1)"
proof -
  obtain P ags where C: "C = (P, ags)" by (cases C)
  obtain P1 ags1 where C1: "C1 = (P1, ags1)" by (cases C1)
  have "global_delays P \<le> global_delays P1"
  proof (cases ev)
    case (Begin c)
    with assms(1) C C1 show ?thesis
      by (auto split: activity.splits call.splits
          dest: begin_call_global begin_samples_ready_global)
  next
    case Step
    with assms(1) C C1 have "global_delays P1 = global_delays P + pending_add (ags t)"
      by (auto dest: fine_step_global)
    moreover from assms(2) C Step
    have "unat (global_delays P) + unat (pending_add (ags t)) < 2 ^ 64"
      by simp
    ultimately show ?thesis
      by (simp add: fits_le del: pending_add.simps)
  qed
  with C C1 show ?thesis by simp
qed

lemma history_sorted:
  "adds_fit E es C \<Longrightarrow>
     sorted (global_delays_history E es C)
     \<and> (\<forall>x \<in> set (global_delays_history E es C). global_delays (fst C) \<le> x)"
proof (induction es arbitrary: C)
  case Nil
  then show ?case by simp
next
  case (Cons e es)
  obtain t ev where e: "e = (t, ev)" by (cases e)
  show ?case
  proof (cases "fine_event E e C")
    case (Inl x)
    then show ?thesis by simp
  next
    case (Inr C1)
    with Cons.prems e have fit: "adds_fit E es C1"
      and now: "case ev of
                  Step \<Rightarrow> unat (global_delays (fst C)) + unat (pending_add (snd C t)) < 2 ^ 64
                | Begin c \<Rightarrow> True"
      by simp_all
    from fine_event_le [OF Inr [unfolded e] now]
    have le: "global_delays (fst C) \<le> global_delays (fst C1)" .
    from Cons.IH [OF fit] have
      s: "sorted (global_delays_history E es C1)" and
      a: "\<forall>x \<in> set (global_delays_history E es C1). global_delays (fst C1) \<le> x"
      by simp_all
    from a le have "\<forall>x \<in> set (global_delays_history E es C1). global_delays (fst C) \<le> x"
      by (auto intro: order_trans)
    with s Inr show ?thesis
      by simp
  qed
qed

lemma history_last:
  "fine_session E es C = Inr C' \<Longrightarrow>
     last (global_delays_history E es C) = global_delays (fst C')
     \<and> length (global_delays_history E es C) = Suc (length es)"
proof (induction es arbitrary: C)
  case Nil
  then show ?case by auto
next
  case (Cons e es)
  from Cons.prems obtain C1 where
    step: "fine_event E e C = Inr C1" and rest: "fine_session E es C1 = Inr C'"
    by (auto split: sum.splits)
  from Cons.IH [OF rest] step show ?case
    by (cases es) auto
qed

text \<open>
  C4. Over a whole session of threads that run at the same time, \<open>global_delays\<close> never
  decreases as long as no addition of line 372 passes \<open>2 ^ 64\<close>. Whatever calls the
  threads begin and however their steps interleave (\<open>es\<close>), from any state of the profiler
  and of the threads: when no \<^verbatim>\<open>+=\<close> of the session wraps around (\<open>adds_fit\<close>), every event
  leaves the counter as it is or increases it, so the values it takes are in ascending
  order and the value at the end is at least the value at the start.
\<close>

theorem global_delays_monotone_unless_wrap:
  assumes "fine_session E es C = Inr C'" and "adds_fit E es C"
  shows "sorted (global_delays_history E es C)
     \<and> global_delays (fst C) \<le> global_delays (fst C')"
proof -
  from history_sorted [OF assms(2)] have
    s: "sorted (global_delays_history E es C)" and
    a: "\<forall>x \<in> set (global_delays_history E es C). global_delays (fst C) \<le> x"
    by simp_all
  from history_last [OF assms(1)] have
    "last (global_delays_history E es C) = global_delays (fst C')"
    "global_delays_history E es C \<noteq> []"
    by auto
  then have "global_delays (fst C') \<in> set (global_delays_history E es C)"
    by (metis last_in_set)
  with a s show ?thesis by blast
qed

lemmas fine_defs =
  two_ahead_def catch_up_race_def outside_def fine_step_def add_delays_from_def owed_def
  resume_def
  thread_state_get_def release_def Let_def

text \<open>
  Both threads are 5 delays ahead of the counter and both read 0 at line 366: the counter
  goes from 0 to 5 and then to 10.
\<close>

theorem global_delays_monotone_unless_wrap_witness:
  "\<exists>C'. fine_session example_env catch_up_race (fresh_profiler, two_ahead 5 5) = Inr C'
     \<and> adds_fit example_env catch_up_race (fresh_profiler, two_ahead 5 5)
     \<and> sorted (global_delays_history example_env catch_up_race (fresh_profiler, two_ahead 5 5))
     \<and> global_delays (fst (fresh_profiler, two_ahead 5 5)) \<le> global_delays (fst C')
     \<and> global_delays (fst C') = 10
     \<and> global_delays_history example_env catch_up_race (fresh_profiler, two_ahead 5 5)
         = [0, 0, 0, 5, 10]"
proof -
  let ?C = "(fresh_profiler, two_ahead 5 5)"
  let ?C' = "projr (fine_session example_env catch_up_race ?C)"
  have h1: "fine_session example_env catch_up_race ?C = Inr ?C'"
    by (simp add: fine_defs example_defs)
  have h2: "adds_fit example_env catch_up_race ?C"
    by (simp add: fine_defs example_defs)
  have v: "global_delays (fst ?C') = 10
     \<and> global_delays_history example_env catch_up_race ?C = [0, 0, 0, 5, 10]"
    by (simp add: fine_defs example_defs)
  from global_delays_monotone_unless_wrap [OF h1 h2]
  have "sorted (global_delays_history example_env catch_up_race ?C)
     \<and> global_delays (fst ?C) \<le> global_delays (fst ?C')" .
  with h1 h2 v show ?thesis
    by blast
qed

text \<open>
  Without the condition the counter decreases. The delay counts of the two threads are
  \<open>2 ^ 63 + 1\<close> and \<open>2 ^ 63\<close>, and both threads read 0 at line 366: the first \<^verbatim>\<open>+=\<close> makes
  the counter \<open>2 ^ 63 + 1\<close>, the second makes it 1.
\<close>

theorem global_delays_wraps:
  "global_delays_history example_env catch_up_race
       (fresh_profiler, two_ahead 9223372036854775809 9223372036854775808)
     = [0, 0, 0, 9223372036854775809, 1]
   \<and> (1 :: size_t) < 9223372036854775809
   \<and> \<not> adds_fit example_env catch_up_race
         (fresh_profiler, two_ahead 9223372036854775809 9223372036854775808)"
  by (simp add: fine_defs example_defs)

subsection \<open>Sessions whose calls do not overlap\<close>

text \<open>
  A call that no other thread interrupts does in the session of overlapping calls what
  \<open>run_call\<close> does, so every run of \<open>session\<close> is a run of \<open>fine_session\<close>.
\<close>

lemma fine_session_append:
  "fine_session E (xs @ ys) C =
     (case fine_session E xs C of Inl x \<Rightarrow> Inl x | Inr C1 \<Rightarrow> fine_session E ys C1)"
  by (induction xs arbitrary: C) (auto split: sum.splits)

lemma steps_then:
  "fine_session E (replicate m e) C = Inr C1 \<Longrightarrow> fine_session E (replicate n e) C1 = R \<Longrightarrow>
     fine_session E (replicate (m + n) e) C = R"
  by (simp add: replicate_add fine_session_append)

lemma outside_upd:
  "(outside sts)(t := \<lparr>astate = st, activity = Outside\<rparr>) = outside (sts(t := st))"
  by (auto simp: outside_def)

lemma solo_fine:
  assumes "solo E n (P, w) = Inr (P', w')" and "wpc w' = Left"
  shows "\<exists>m. fine_session E (replicate m (t, Step))
               (P, ags(t := \<lparr>astate = wstate w,
                             activity = In_process_samples (wpc w) (wrecords w) who\<rparr>))
             = Inr (P', ags(t := \<lparr>astate = wstate w',
                                  activity = In_process_samples Left (wrecords w') who\<rparr>))"
  using assms
proof (induction n arbitrary: P w)
  case 0
  then have "fine_session E (replicate 0 (t, Step))
               (P, ags(t := \<lparr>astate = wstate w,
                             activity = In_process_samples (wpc w) (wrecords w) who\<rparr>))
             = Inr (P', ags(t := \<lparr>astate = wstate w',
                                  activity = In_process_samples Left (wrecords w') who\<rparr>))"
    by auto
  then show ?case by blast
next
  case (Suc n)
  show ?case
  proof (cases "wpc w = Left")
    case True
    then have "worker_step E (P, w) = Inr (P, w)"
      by (simp add: worker_step_def)
    with Suc.prems have "solo E n (P, w) = Inr (P', w')"
      by simp
    from Suc.IH [OF this Suc.prems(2)] show ?thesis .
  next
    case False
    from Suc.prems(1) obtain P1 w1 where
      ws: "worker_step E (P, w) = Inr (P1, w1)" and rest: "solo E n (P1, w1) = Inr (P', w')"
      by (auto split: sum.splits)
    from Suc.IH [OF rest Suc.prems(2)] obtain m where
      m: "fine_session E (replicate m (t, Step))
               (P1, ags(t := \<lparr>astate = wstate w1,
                              activity = In_process_samples (wpc w1) (wrecords w1) who\<rparr>))
             = Inr (P', ags(t := \<lparr>astate = wstate w',
                                  activity = In_process_samples Left (wrecords w') who\<rparr>))"
      by blast
    have w: "\<lparr>wstate = wstate w, wpc = wpc w, wrecords = wrecords w\<rparr> = w"
      by simp
    have "fine_event E (t, Step)
               (P, ags(t := \<lparr>astate = wstate w,
                             activity = In_process_samples (wpc w) (wrecords w) who\<rparr>))
            = Inr (P1, ags(t := \<lparr>astate = wstate w1,
                              activity = In_process_samples (wpc w1) (wrecords w1) who\<rparr>))"
      using False ws by (simp add: fine_step_def w)
    with m have "fine_session E (replicate (Suc m) (t, Step))
               (P, ags(t := \<lparr>astate = wstate w,
                             activity = In_process_samples (wpc w) (wrecords w) who\<rparr>))
             = Inr (P', ags(t := \<lparr>astate = wstate w',
                                  activity = In_process_samples Left (wrecords w') who\<rparr>))"
      by simp
    then show ?thesis by blast
  qed
qed

lemma fine_process_samples:
  assumes "process_samples E rs (P, st) = Inr (P', st')"
  shows "\<exists>m rest. fine_session E (replicate m (t, Step))
               (P, ags(t := \<lparr>astate = sampler_stop st,
                             activity = In_process_samples Loop_head rs who\<rparr>))
             = Inr (P', ags(t := \<lparr>astate = st',
                                  activity = In_process_samples Left rest who\<rparr>))"
proof -
  from alone_is_process_samples [OF assms, of t "\<lambda>u. enter rs st"] obtain n w' where
    n: "interleave E (replicate n t) (P, (\<lambda>u. enter rs st)(t := enter rs st))
          = Inr (P', (\<lambda>u. enter rs st)(t := w'))"
    and w': "wstate w' = st'" "wpc w' = Left"
    by blast
  from n obtain w2 where s: "solo E n (P, enter rs st) = Inr (P', w2)"
    and eq: "(\<lambda>u. enter rs st)(t := w2) = (\<lambda>u. enter rs st)(t := w')"
    by (auto simp: interleave_replicate split: sum.splits)
  from eq have "w2 = w'"
    by (metis fun_upd_same)
  with s have s': "solo E n (P, enter rs st) = Inr (P', w')"
    by simp
  from solo_fine [OF s' w'(2), of t ags who] w'(1) show ?thesis
    by (auto simp: enter_def)
qed

lemma fine_end_sampling:
  assumes "thread_state_get thread_context st0 = Some st"
    and "process_samples E rs (P, st) = Inr PS"
    and "add_delays E PS = (P1, st1)"
  shows "\<exists>m. fine_session E (replicate m (t, Step))
               (P, ags(t := \<lparr>astate = sampler_stop st,
                             activity = In_process_samples Loop_head rs
                                          (From_end_sampling after)\<rparr>))
             = Inr (P1, ags(t := \<lparr>astate = release (sampler_close (sampler_stop st1)),
                                  activity = resume after\<rparr>))"
proof -
  obtain P' st' where PS: "PS = (P', st')" by (cases PS)
  from fine_process_samples [OF assms(2) [unfolded PS], of t ags "From_end_sampling after"]
  obtain m rest where
    m: "fine_session E (replicate m (t, Step))
          (P, ags(t := \<lparr>astate = sampler_stop st,
                        activity = In_process_samples Loop_head rs (From_end_sampling after)\<rparr>))
        = Inr (P', ags(t := \<lparr>astate = st',
                             activity = In_process_samples Left rest (From_end_sampling after)\<rparr>))"
    by blast
  have l: "fine_session E (replicate (Suc 0) (t, Step))
          (P', ags(t := \<lparr>astate = st',
                         activity = In_process_samples Left rest (From_end_sampling after)\<rparr>))
        = Inr (P', ags(t := \<lparr>astate = st',
                             activity = Loaded (global_delays P') (delay_size P')
                                          (In_end_sampling after)\<rparr>))"
    by (simp add: fine_step_def)
  from assms(3) PS have "add_delays_from E (global_delays P') (delay_size P') (P', st') = (P1, st1)"
    by (simp add: add_delays_split)
  then have a: "fine_session E (replicate (Suc 0) (t, Step))
          (P', ags(t := \<lparr>astate = st',
                         activity = Loaded (global_delays P') (delay_size P')
                                      (In_end_sampling after)\<rparr>))
        = Inr (P1, ags(t := \<lparr>astate = release (sampler_close (sampler_stop st1)),
                             activity = resume after\<rparr>))"
    by (simp add: fine_step_def)
  from steps_then [OF steps_then [OF m l] a] show ?thesis
    by blast
qed

lemma on_both_fine:
  assumes "on_both f t \<lparr>prof = P, threads = sts\<rparr> = Inr S'"
  obtains P' st' where "f (P, sts t) = Inr (P', st')" "prof S' = P'"
    "threads S' = sts(t := st')"
  using assms by (auto simp: on_both_def split: sum.splits)

lemma whole_call_fine:
  assumes "run_call E t c \<lparr>prof = P, threads = sts\<rparr> = Inr S'"
  shows "whole_call E t c (P, outside sts) = Inr (prof S', outside (threads S'))"
proof -
  have "(\<lambda>u. astate (outside sts u)) = sts"
    by (simp add: outside_def)
  moreover have "(\<lambda>u. (outside sts u)\<lparr>astate := threads S' u\<rparr>) = outside (threads S')"
    by (simp add: outside_def)
  ultimately show ?thesis
    using assms by (simp add: whole_call_def)
qed

lemma run_call_fine:
  assumes "run_call E t c \<lparr>prof = P, threads = sts\<rparr> = Inr S'"
  shows "\<exists>m. fine_session E ((t, Begin c) # replicate m (t, Step)) (P, outside sts)
           = Inr (prof S', outside (threads S'))"
proof -
  have out: "activity (outside sts t) = Outside" "astate (outside sts t) = sts t"
    by (simp_all add: outside_def)
  have whole: "begin_call E t c (P, outside sts) = whole_call E t c (P, outside sts) \<Longrightarrow>
     ?thesis"
  proof -
    assume "begin_call E t c (P, outside sts) = whole_call E t c (P, outside sts)"
    with whole_call_fine [OF assms] out
    have "fine_session E ((t, Begin c) # replicate 0 (t, Step)) (P, outside sts)
           = Inr (prof S', outside (threads S'))"
      by simp
    then show ?thesis by blast
  qed
  have ended: "\<exists>m. fine_session E ((t, Begin c) # replicate m (t, Step)) (P0, outside sts)
           = Inr (P1, outside (sts(t := release (sampler_close (sampler_stop st1)))))"
    if b: "begin_call E t c (P0, outside sts) = begin_end_sampling t rs Done (P0, outside sts)"
      and e: "end_sampling E rs (P0, sts t) = Inr (P1, release (sampler_close (sampler_stop st1)))"
      and g: "thread_state_get thread_context (sts t) = Some st"
      and p: "process_samples E rs (P0, st) = Inr PS"
      and a: "add_delays E PS = (P1, st1)"
    for P0 P1 rs st st1 PS
  proof -
    from fine_end_sampling [OF g p a, of t "outside sts" Done] obtain m where
      m: "fine_session E (replicate m (t, Step))
               (P0, (outside sts)(t := \<lparr>astate = sampler_stop st,
                             activity = In_process_samples Loop_head rs
                                          (From_end_sampling Done)\<rparr>))
             = Inr (P1, outside (sts(t := release (sampler_close (sampler_stop st1)))))"
      by (auto simp: resume_def outside_upd)
    from b g out have "fine_event E (t, Begin c) (P0, outside sts)
        = Inr (P0, (outside sts)(t := \<lparr>astate = sampler_stop st,
                             activity = In_process_samples Loop_head rs
                                          (From_end_sampling Done)\<rparr>))"
      by (simp add: begin_end_sampling_def)
    with m have "fine_session E ((t, Begin c) # replicate m (t, Step)) (P0, outside sts)
           = Inr (P1, outside (sts(t := release (sampler_close (sampler_stop st1)))))"
      by simp
    then show ?thesis by blast
  qed
  show ?thesis
  proof (cases c)
    case (Startup names fl fs now)
    then show ?thesis by (intro whole) simp
  next
    case (Pthread_create child fn arg)
    then show ?thesis by (intro whole) simp
  next
    case Snapshot_delays
    then show ?thesis by (intro whole) simp
  next
    case Skip_delays
    then show ?thesis by (intro whole) simp
  next
    case Begin_sampling
    then show ?thesis by (intro whole) simp
  next
    case Catch_up
    with assms obtain P' st' where
      f: "catch_up E (P, sts t) = Inr (P', st')" and S': "prof S' = P'" "threads S' = sts(t := st')"
      by (auto elim: on_both_fine)
    from f obtain st st1 where
      g: "thread_state_get thread_context (sts t) = Some st" and
      a: "add_delays E (P, st) = (P', st1)" and st': "st' = release st1"
      by (auto simp: catch_up_def split: option.splits prod.splits)
    from a have "add_delays_from E (global_delays P) (delay_size P) (P, st) = (P', st1)"
      by (simp add: add_delays_split)
    with g out Catch_up st' S'
    have "fine_session E ((t, Begin c) # replicate (Suc 0) (t, Step)) (P, outside sts)
           = Inr (prof S', outside (threads S'))"
      by (simp add: fine_step_def outside_upd)
    then show ?thesis by blast
  next
    case (Samples_ready rs)
    with assms obtain P' st' where
      f: "samples_ready E rs (P, sts t) = Inr (P', st')" and
      S': "prof S' = P'" "threads S' = sts(t := st')"
      by (auto elim: on_both_fine)
    show ?thesis
    proof (cases "thread_state_get signal_context (sts t)")
      case None
      with f have "P' = P" "st' = sts t"
        by (simp_all add: samples_ready_def)
      with S' None out Samples_ready
      have "fine_session E ((t, Begin c) # replicate 0 (t, Step)) (P, outside sts)
           = Inr (prof S', outside (threads S'))"
        by (simp add: begin_samples_ready_def)
      then show ?thesis by blast
    next
      case (Some st)
      with f obtain st1 where p: "process_samples E rs (P, st) = Inr (P', st1)"
        and st': "st' = release st1"
        by (auto simp: samples_ready_def split: sum.splits)
      from fine_process_samples [OF p, of t "outside sts" "From_signal Done"]
      obtain m rest where
        m: "fine_session E (replicate m (t, Step))
               (P, (outside sts)(t := \<lparr>astate = sampler_stop st,
                             activity = In_process_samples Loop_head rs (From_signal Done)\<rparr>))
             = Inr (P', (outside sts)(t := \<lparr>astate = st1,
                                  activity = In_process_samples Left rest (From_signal Done)\<rparr>))"
        by blast
      have "fine_session E (replicate (Suc 0) (t, Step))
               (P', (outside sts)(t := \<lparr>astate = st1,
                                  activity = In_process_samples Left rest (From_signal Done)\<rparr>))
             = Inr (P', outside (sts(t := release st1)))"
        by (simp add: fine_step_def resume_def outside_upd)
      from steps_then [OF m this]
      have "fine_session E (replicate (m + Suc 0) (t, Step))
               (P, (outside sts)(t := \<lparr>astate = sampler_stop st,
                             activity = In_process_samples Loop_head rs (From_signal Done)\<rparr>))
             = Inr (P', outside (sts(t := release st1)))" .
      moreover from Some out Samples_ready
      have "fine_event E (t, Begin c) (P, outside sts)
        = Inr (P, (outside sts)(t := \<lparr>astate = sampler_stop st,
                             activity = In_process_samples Loop_head rs (From_signal Done)\<rparr>))"
        by (simp add: begin_samples_ready_def)
      ultimately
      have "fine_session E ((t, Begin c) # replicate (m + Suc 0) (t, Step)) (P, outside sts)
           = Inr (prof S', outside (threads S'))"
        using S' st' by (simp del: replicate.simps add_Suc_right)
      then show ?thesis by blast
    qed
  next
    case (End_sampling rs)
    with assms obtain P' st' where
      f: "end_sampling E rs (P, sts t) = Inr (P', st')" and
      S': "prof S' = P'" "threads S' = sts(t := st')"
      by (auto elim: on_both_fine)
    from f obtain st PS st1 where
      g: "thread_state_get thread_context (sts t) = Some st" and
      p: "process_samples E rs (P, st) = Inr PS" and
      a: "add_delays E PS = (P', st1)" and
      st': "st' = release (sampler_close (sampler_stop st1))"
      by (auto simp: end_sampling_def split: option.splits sum.splits prod.splits)
    from End_sampling
    have b: "begin_call E t c (P, outside sts) = begin_end_sampling t rs Done (P, outside sts)"
      by simp
    from ended [OF b f [unfolded st'] g p a] S' st' show ?thesis
      by simp
  next
    case (Pthread_exit rs)
    with assms obtain P' st' where
      f: "end_sampling E rs (P, sts t) = Inr (P', st')" and
      S': "prof S' = P'" "threads S' = sts(t := st')"
      by (auto simp: handle_pthread_exit_def elim: on_both_fine)
    from f obtain st PS st1 where
      g: "thread_state_get thread_context (sts t) = Some st" and
      p: "process_samples E rs (P, st) = Inr PS" and
      a: "add_delays E PS = (P', st1)" and
      st': "st' = release (sampler_close (sampler_stop st1))"
      by (auto simp: end_sampling_def split: option.splits sum.splits prod.splits)
    from Pthread_exit
    have b: "begin_call E t c (P, outside sts) = begin_end_sampling t rs Done (P, outside sts)"
      by simp
    from ended [OF b f [unfolded st'] g p a] S' st' show ?thesis
      by simp
  next
    case (Shutdown now rs)
    with assms obtain P' st' where
      f: "shutdown E now rs (P, sts t) = Inr (P', st')" and
      S': "prof S' = P'" "threads S' = sts(t := st')"
      by (auto elim: on_both_fine)
    show ?thesis
    proof (cases "shutdown_run P")
      case True
      with f have "P' = P\<lparr>shutdown_run := True\<rparr>" "st' = sts t"
        by (simp_all add: shutdown_def test_and_set_def)
      with S' True out Shutdown
      have "fine_session E ((t, Begin c) # replicate 0 (t, Step)) (P, outside sts)
           = Inr (prof S', outside (threads S'))"
        by (simp add: test_and_set_def)
      then show ?thesis by blast
    next
      case False
      let ?P0 = "P\<lparr>shutdown_run := True\<rparr>"
      from f False obtain P1 P2 where
        e: "end_sampling E rs (?P0, sts t) = Inr (P1, st')" and
        em: "emit Ev_shutdown P1 = Inr P2" and
        P': "P' = report_end_to_end E now (delete_out P2)"
        by (auto simp: shutdown_def test_and_set_def split: sum.splits)
      from e obtain st PS st1 where
        g: "thread_state_get thread_context (sts t) = Some st" and
        p: "process_samples E rs (?P0, st) = Inr PS" and
        a: "add_delays E PS = (P1, st1)" and
        st': "st' = release (sampler_close (sampler_stop st1))"
        by (auto simp: end_sampling_def split: option.splits sum.splits prod.splits)
      from fine_end_sampling [OF g p a, of t "outside sts" "Shutdown_tail now"] obtain m where
        m: "fine_session E (replicate m (t, Step))
               (?P0, (outside sts)(t := \<lparr>astate = sampler_stop st,
                             activity = In_process_samples Loop_head rs
                                          (From_end_sampling (Shutdown_tail now))\<rparr>))
             = Inr (P1, (outside sts)(t := \<lparr>astate = st', activity = After_end_sampling now\<rparr>))"
        by (auto simp: resume_def st')
      from em have "fine_session E (replicate (Suc 0) (t, Step))
             (P1, (outside sts)(t := \<lparr>astate = st', activity = After_end_sampling now\<rparr>))
           = Inr (P', outside (sts(t := st')))"
        by (simp add: fine_step_def P' outside_upd)
      from steps_then [OF m this]
      have "fine_session E (replicate (m + Suc 0) (t, Step))
               (?P0, (outside sts)(t := \<lparr>astate = sampler_stop st,
                             activity = In_process_samples Loop_head rs
                                          (From_end_sampling (Shutdown_tail now))\<rparr>))
             = Inr (P', outside (sts(t := st')))" .
      moreover from False g out Shutdown
      have "fine_event E (t, Begin c) (P, outside sts)
        = Inr (?P0, (outside sts)(t := \<lparr>astate = sampler_stop st,
                             activity = In_process_samples Loop_head rs
                                          (From_end_sampling (Shutdown_tail now))\<rparr>))"
        by (simp add: test_and_set_def begin_end_sampling_def)
      ultimately
      have "fine_session E ((t, Begin c) # replicate (m + Suc 0) (t, Step)) (P, outside sts)
           = Inr (prof S', outside (threads S'))"
        using S' by (simp del: replicate.simps add_Suc_right)
      then show ?thesis by blast
    qed
  qed
qed

lemma session_fine:
  "session E cs S = Inr S' \<Longrightarrow>
     \<exists>es. fine_session E es (prof S, outside (threads S)) = Inr (prof S', outside (threads S'))"
proof (induction cs arbitrary: S)
  case Nil
  then have "fine_session E [] (prof S, outside (threads S)) = Inr (prof S', outside (threads S'))"
    by simp
  then show ?case by blast
next
  case (Cons tc cs)
  obtain t c where tc: "tc = (t, c)" by (cases tc)
  from Cons.prems tc obtain S1 where
    r: "run_call E t c S = Inr S1" and rest: "session E cs S1 = Inr S'"
    by (auto split: sum.splits)
  from r have "run_call E t c \<lparr>prof = prof S, threads = threads S\<rparr> = Inr S1"
    by (cases S) simp
  from run_call_fine [OF this] obtain m where
    m: "fine_session E ((t, Begin c) # replicate m (t, Step)) (prof S, outside (threads S))
           = Inr (prof S1, outside (threads S1))"
    by blast
  from Cons.IH [OF rest] obtain es where
    es: "fine_session E es (prof S1, outside (threads S1)) = Inr (prof S', outside (threads S'))"
    by blast
  from m es
  have "fine_session E (((t, Begin c) # replicate m (t, Step)) @ es)
          (prof S, outside (threads S)) = Inr (prof S', outside (threads S'))"
    unfolding fine_session_append by simp
  then show ?case by blast
qed

text \<open>
  In a session whose calls do not overlap the counter never decreases, whatever its
  values: the \<^verbatim>\<open>+=\<close> of line 372 adds to the value that line 366 has read, and the sum is
  the delay count of the thread.
\<close>

lemma session_global_delays:
  "session E cs S = Inr S' \<Longrightarrow> global_delays (prof S) \<le> global_delays (prof S')"
proof (induction cs arbitrary: S)
  case Nil
  then show ?case by simp
next
  case (Cons tc cs)
  obtain t c where tc: "tc = (t, c)" by (cases tc)
  with Cons.prems obtain S1 where
    step: "run_call E t c S = Inr S1" and rest: "session E cs S1 = Inr S'"
    by (auto split: sum.splits)
  from run_call_advances [OF step] Cons.IH [OF rest] show ?case
    by (auto intro: order_trans)
qed

subsection \<open>A session from the fresh profiler in which the counter decreases\<close>

text \<open>
  The state of the threads above is reached from the fresh profiler. With the constants
  of \<open>example_env\<close> a round is two samples. A thread whose sampler holds \<open>2 * k\<close> samples
  of line 7 runs \<open>k\<close> rounds in one call of \<open>process_samples\<close>; its delay count grows by
  \<open>2 * k\<close>, and \<^verbatim>\<open>_global_delays\<close> is written only after the loop.
\<close>

lemma solo_left: "wpc w = Left \<Longrightarrow> solo E n (P, w) = Inr (P, w)"
  by (induction n) (simp_all add: worker_step_def)

lemma solo_fine_busy:
  assumes "solo E n (P, w) = Inr (P', w')" and "wpc w' \<noteq> Left"
  shows "fine_session E (replicate n (t, Step))
               (P, ags(t := \<lparr>astate = wstate w,
                             activity = In_process_samples (wpc w) (wrecords w) who\<rparr>))
             = Inr (P', ags(t := \<lparr>astate = wstate w',
                                  activity = In_process_samples (wpc w') (wrecords w') who\<rparr>))"
  using assms
proof (induction n arbitrary: P w)
  case 0
  then show ?case by auto
next
  case (Suc n)
  have busy: "wpc w \<noteq> Left"
  proof
    assume l: "wpc w = Left"
    have "solo E (Suc n) (P, w) = Inr (P, w)"
      by (rule solo_left [OF l])
    with Suc.prems(1) have "w' = w"
      by (simp del: solo.simps)
    with l Suc.prems(2) show False
      by simp
  qed
  from Suc.prems(1) obtain P1 w1 where
    ws: "worker_step E (P, w) = Inr (P1, w1)" and rest: "solo E n (P1, w1) = Inr (P', w')"
    by (auto split: sum.splits)
  have w: "\<lparr>wstate = wstate w, wpc = wpc w, wrecords = wrecords w\<rparr> = w"
    by simp
  have ev: "fine_event E (t, Step)
             (P, ags(t := \<lparr>astate = wstate w,
                           activity = In_process_samples (wpc w) (wrecords w) who\<rparr>))
          = Inr (P1, ags(t := \<lparr>astate = wstate w1,
                            activity = In_process_samples (wpc w1) (wrecords w1) who\<rparr>))"
    using busy ws by (simp add: fine_step_def w)
  show ?case
    unfolding replicate_Suc fine_session.simps ev sum.case
    by (rule Suc.IH [OF rest Suc.prems(2)])
qed

lemma fine_to_load:
  assumes "process_loop E rs (P, sampler_stop st) = Inr (Next, P', st')"
  shows "\<exists>n. fine_session E (replicate n (t, Step))
               (P, ags(t := \<lparr>astate = sampler_stop st,
                             activity = In_process_samples Loop_head rs who\<rparr>))
             = Inr (P', ags(t := \<lparr>astate = st',
                          activity = In_process_samples
                                       (Loaded_delays (global_delays P') (delay_size P')) []
                                       who\<rparr>))"
proof -
  from solo_loop [OF assms] obtain n where
    n: "solo E n (P, \<lparr>wstate = sampler_stop st, wpc = Loop_head, wrecords = rs\<rparr>)
          = Inr (P', \<lparr>wstate = st', wpc = Loop_head, wrecords = []\<rparr>)"
    by (auto simp: pc_after_def)
  from solo_fine_busy [OF n, of t ags who]
  have a: "fine_session E (replicate n (t, Step))
               (P, ags(t := \<lparr>astate = sampler_stop st,
                             activity = In_process_samples Loop_head rs who\<rparr>))
             = Inr (P', ags(t := \<lparr>astate = st',
                                  activity = In_process_samples Loop_head [] who\<rparr>))"
    by simp
  have b: "fine_session E (replicate (Suc 0) (t, Step))
             (P', ags(t := \<lparr>astate = st', activity = In_process_samples Loop_head [] who\<rparr>))
           = Inr (P', ags(t := \<lparr>astate = st',
                          activity = In_process_samples
                                       (Loaded_delays (global_delays P') (delay_size P')) []
                                       who\<rparr>))"
    by (simp add: fine_step_def worker_step_def)
  from steps_then [OF a b] show ?thesis by blast
qed

lemma one_round:
  assumes "selected_line P = None" and "fixed_line P = None" and "out P = Output es"
  shows "\<exists>P' es'. process_loop example_env [Sample 1 [], Sample 1 []] (P, st)
             = Inr (Next, P', st\<lparr>delay_count := delay_count st + 2\<rparr>)
           \<and> selected_line P' = None \<and> fixed_line P' = None \<and> out P' = Output es'
           \<and> global_delays P' = global_delays P"
  using assms
  by (simp add: process_record_def select_line_def compare_exchange_strong_def start_round_def
      emit_def count_sample_def add_sample_def Let_def example_env_def)

lemma rounds:
  assumes "selected_line P = None" and "fixed_line P = None" and "out P = Output es"
  shows "\<exists>P' es'. process_loop example_env (replicate (2 * k) (Sample 1 [])) (P, st)
             = Inr (Next, P', st\<lparr>delay_count := delay_count st + 2 * of_nat k\<rparr>)
           \<and> selected_line P' = None \<and> fixed_line P' = None \<and> out P' = Output es'
           \<and> global_delays P' = global_delays P"
  using assms
proof (induction k arbitrary: P st es)
  case 0
  then show ?case by simp
next
  case (Suc k)
  from one_round [OF Suc.prems, of st] obtain P1 es1 where
    r: "process_loop example_env [Sample 1 [], Sample 1 []] (P, st)
             = Inr (Next, P1, st\<lparr>delay_count := delay_count st + 2\<rparr>)" and
    i: "selected_line P1 = None" "fixed_line P1 = None" "out P1 = Output es1" and
    g: "global_delays P1 = global_delays P"
    by blast
  from Suc.IH [OF i, of "st\<lparr>delay_count := delay_count st + 2\<rparr>"] obtain P' es' where
    r': "process_loop example_env (replicate (2 * k) (Sample 1 []))
             (P1, st\<lparr>delay_count := delay_count st + 2\<rparr>)
           = Inr (Next, P', st\<lparr>delay_count := delay_count st + 2 + 2 * of_nat k\<rparr>)" and
    i': "selected_line P' = None" "fixed_line P' = None" "out P' = Output es'" and
    g': "global_delays P' = global_delays P1"
    by auto
  have split: "replicate (2 * Suc k) (Sample 1 [])
                 = [Sample 1 [], Sample 1 []] @ replicate (2 * k) (Sample 1 [])"
    by simp
  have dc: "delay_count st + 2 + 2 * of_nat k = delay_count st + 2 * of_nat (Suc k)"
    by simp
  from process_loop_append [OF r, of "replicate (2 * k) (Sample 1 [])"] r'
  have "process_loop example_env (replicate (2 * Suc k) (Sample 1 [])) (P, st)
          = Inr (Next, P', st\<lparr>delay_count := delay_count st + 2 * of_nat (Suc k)\<rparr>)"
    unfolding split dc by simp
  with i' g g' show ?case
    by auto
qed

text \<open>
  Two threads do so one after the other, each up to line 370 of the \<open>add_delays\<close> of line
  358; both have read 0 at line 366. Then each adds its delay count.
\<close>

lemma two_threads_add_twice:
  assumes k0: "(0 :: size_t) < 2 * of_nat k0" and k1: "(0 :: size_t) < 2 * of_nat k1"
  shows "\<exists>n0 n1 C1.
           fine_session example_env
             ((0, Begin (Samples_ready (replicate (2 * k0) (Sample 1 [])))) # replicate n0 (0, Step)
              @ (1, Begin (Samples_ready (replicate (2 * k1) (Sample 1 [])))) # replicate n1 (1, Step))
             (fresh_profiler, outside (\<lambda>t. fresh_thread)) = Inr C1
         \<and> global_delays_history example_env [(0, Step), (1, Step)] C1
             = [0, 2 * of_nat k0, 2 * of_nat k0 + 2 * of_nat k1]"
proof -
  define st where "st = fresh_thread\<lparr>latch_held := True\<rparr>"
  define who where "who = From_signal Done"
  define A where "A = outside (\<lambda>t. fresh_thread)"
  define rs0 where "rs0 = replicate (2 * k0) (Sample 1 [])"
  define rs1 where "rs1 = replicate (2 * k1) (Sample 1 [])"
  define s0 where "s0 = (sampler_stop st)\<lparr>delay_count := 2 * of_nat k0\<rparr>"
  define s1 where "s1 = (sampler_stop st)\<lparr>delay_count := 2 * of_nat k1\<rparr>"
  have dc: "delay_count (sampler_stop st) = 0"
    by (simp add: st_def sampler_stop_def fresh_defs)
  have f: "selected_line fresh_profiler = None" "fixed_line fresh_profiler = None"
    "out fresh_profiler = Output [Ev_startup 1000000]" "global_delays fresh_profiler = 0"
    by (simp_all add: fresh_defs)
  from rounds [OF f(1-3), of k0 "sampler_stop st"] obtain P1 es1 where
    l1: "process_loop example_env rs0 (fresh_profiler, sampler_stop st) = Inr (Next, P1, s0)" and
    i1: "selected_line P1 = None" "fixed_line P1 = None" "out P1 = Output es1" and
    g1: "global_delays P1 = 0"
    unfolding rs0_def s0_def dc f(4) by auto
  from rounds [OF i1, of k1 "sampler_stop st"] obtain P2 es2 where
    l2: "process_loop example_env rs1 (P1, sampler_stop st) = Inr (Next, P2, s1)" and
    g2: "global_delays P2 = 0"
    unfolding rs1_def s1_def dc g1 by auto
  define A1 where "A1 = A(0 := \<lparr>astate = s0,
        activity = In_process_samples (Loaded_delays 0 (delay_size P1)) [] who\<rparr>)"
  define A2 where "A2 = A1(1 := \<lparr>astate = s1,
        activity = In_process_samples (Loaded_delays 0 (delay_size P2)) [] who\<rparr>)"
  have b0: "fine_event example_env (0, Begin (Samples_ready rs0)) (fresh_profiler, A)
      = Inr (fresh_profiler, A(0 := \<lparr>astate = sampler_stop st,
                                      activity = In_process_samples Loop_head rs0 who\<rparr>))"
    by (simp add: A_def outside_def begin_samples_ready_def thread_state_get_def st_def who_def
        fresh_defs)
  from fine_to_load [OF l1, of 0 A who] obtain n0 where
    r0: "fine_session example_env (replicate n0 (0, Step))
           (fresh_profiler, A(0 := \<lparr>astate = sampler_stop st,
                                    activity = In_process_samples Loop_head rs0 who\<rparr>))
         = Inr (P1, A1)"
    unfolding A1_def g1 by blast
  have "A1 1 = \<lparr>astate = fresh_thread, activity = Outside\<rparr>"
    by (simp add: A1_def A_def outside_def)
  then have b1: "fine_event example_env (1, Begin (Samples_ready rs1)) (P1, A1)
      = Inr (P1, A1(1 := \<lparr>astate = sampler_stop st,
                           activity = In_process_samples Loop_head rs1 who\<rparr>))"
    by (simp add: begin_samples_ready_def thread_state_get_def st_def who_def fresh_defs)
  from fine_to_load [OF l2, of 1 A1 who] obtain n1 where
    r1: "fine_session example_env (replicate n1 (1, Step))
           (P1, A1(1 := \<lparr>astate = sampler_stop st,
                         activity = In_process_samples Loop_head rs1 who\<rparr>))
         = Inr (P2, A2)"
    unfolding A2_def g2 by blast
  have run: "fine_session example_env
             ((0, Begin (Samples_ready rs0)) # replicate n0 (0, Step)
              @ (1, Begin (Samples_ready rs1)) # replicate n1 (1, Step))
             (fresh_profiler, A) = Inr (P2, A2)"
    unfolding fine_session.simps fine_session_append b0 b1 r0 r1 sum.case by (rule refl)
  have a0: "A2 0 = \<lparr>astate = s0,
        activity = In_process_samples (Loaded_delays 0 (delay_size P1)) [] who\<rparr>"
    by (simp add: A2_def A1_def)
  have d0: "delay_count s0 = 2 * of_nat k0" and d1: "delay_count s1 = 2 * of_nat k1"
    by (simp_all add: s0_def s1_def)
  have step0: "fine_event example_env (0, Step) (P2, A2)
      = Inr (P2\<lparr>global_delays := 2 * of_nat k0\<rparr>,
             A2(0 := \<lparr>astate = sampler_start s0, activity = In_process_samples Left [] who\<rparr>))"
    using k0 by (simp add: fine_step_def worker_step_def add_delays_from_def a0 d0 g2)
  have a1: "A2 (Suc 0) = \<lparr>astate = s1,
        activity = In_process_samples (Loaded_delays 0 (delay_size P2)) [] who\<rparr>"
    by (simp add: A2_def)
  have step1: "\<exists>C. fine_event example_env (1, Step)
         (P2\<lparr>global_delays := 2 * of_nat k0\<rparr>,
          A2(0 := \<lparr>astate = sampler_start s0, activity = In_process_samples Left [] who\<rparr>))
      = Inr C \<and> global_delays (fst C) = 2 * of_nat k0 + 2 * of_nat k1"
    using k1 by (simp add: fine_step_def worker_step_def add_delays_from_def a1 d1)
  then obtain C where step1': "fine_event example_env (1, Step)
         (P2\<lparr>global_delays := 2 * of_nat k0\<rparr>,
          A2(0 := \<lparr>astate = sampler_start s0, activity = In_process_samples Left [] who\<rparr>))
      = Inr C" and gC: "global_delays (fst C) = 2 * of_nat k0 + 2 * of_nat k1"
    by blast
  have "global_delays_history example_env [(0, Step), (1, Step)] (P2, A2)
             = [0, 2 * of_nat k0, 2 * of_nat k0 + 2 * of_nat k1]"
    unfolding global_delays_history.simps step0 step1' sum.case
    by (simp add: g2 gC)
  with run show ?thesis
    unfolding rs0_def rs1_def A_def by blast
qed

lemma counter_wraps_after_startup:
  "\<exists>n0 n1 C1.
     fine_session example_env
       ((0, Begin (Samples_ready (replicate (2 * 4611686018427387905) (Sample 1 []))))
          # replicate n0 (0, Step)
        @ (1, Begin (Samples_ready (replicate (2 * 4611686018427387904) (Sample 1 []))))
          # replicate n1 (1, Step))
       (fresh_profiler, outside (\<lambda>t. fresh_thread)) = Inr C1
     \<and> global_delays_history example_env [(0, Step), (1, Step)] C1
         = [0, 9223372036854775810, 2]"
proof -
  have a: "(0 :: size_t) < 2 * of_nat 4611686018427387905"
    and b: "(0 :: size_t) < 2 * of_nat 4611686018427387904"
    by simp_all
  have c: "(2 :: size_t) * of_nat 4611686018427387905 = 9223372036854775810"
    and d: "(9223372036854775810 :: size_t) + 2 * of_nat 4611686018427387904 = 2"
    by simp_all
  from two_threads_add_twice [OF a b] show ?thesis
    unfolding c d .
qed

end
